theory Spec2Isabelle
  imports Main
begin

section \<open>The Deviceplane device agent: validator, bundle applier, registration, reporter\<close>

text \<open>
  The embedding follows four pieces of Go code: the custom-commands validator
  (package customcommands), the agent's bundle applier and its registration bootstrap
  (package agent, agent.go) and the supervisor's reporter (package supervisor).
  Go errors are values of type \<open>error\<close>; a nil error is \<open>None\<close>. Everything the
  code obtains from outside (the control plane, the JSON library, the file system, the
  order in which \<open>range\<close> visits a map) is a parameter of the function that uses it.
\<close>

type_synonym error = string
type_synonym bytes = string

text \<open>\<open>errors.Wrap(err, msg)\<close>: the message, a colon, the wrapped error.\<close>

definition errors_Wrap :: "error \<Rightarrow> string \<Rightarrow> error" where
  "errors_Wrap err msg = msg @ '': '' @ err"

subsection \<open>Package customcommands: the validator\<close>

text \<open>
  \<open>models.Service\<close> is declared outside the files at hand; the validator reads its
  \<open>Command\<close> and \<open>Entrypoint\<close> slices only, the record's extension stands for the other
  fields. The validator holds the variables interface, of which it calls one getter.
\<close>

record Service =
  Command :: "string list"
  Entrypoint :: "string list"

record variables_Interface =
  GetDisableCustomCommands :: bool

record Validator =
  variables :: variables_Interface

definition ErrCustomCommandsAreDisabled :: error where
  "ErrCustomCommandsAreDisabled = ''custom commands are disabled on this device''"

definition NewValidator :: "variables_Interface \<Rightarrow> Validator" where
  "NewValidator vs = \<lparr>variables = vs\<rparr>"

definition Validate :: "Validator \<Rightarrow> 'a Service_scheme \<Rightarrow> error option" where
  "Validate i s =
     (if GetDisableCustomCommands (variables i) then
        (if length (Command s) \<noteq> 0 \<or> length (Entrypoint s) \<noteq> 0
         then Some ErrCustomCommandsAreDisabled
         else None)
      else None)"

subsection \<open>Package agent: bundles and their JSON codec\<close>

text \<open>
  \<open>models.Bundle\<close> is declared outside the files at hand. The agent reads its
  \<open>Applications\<close> and its \<open>DesiredAgentVersion\<close>; the record's extension stands for every
  other field. A \<open>*models.Bundle\<close> is an option, \<open>None\<close> the nil pointer.

  The JSON library is a parameter. \<open>unmarshalBundle bs\<close> is the outcome of
  \<open>json.Unmarshal(bs, &bundle)\<close> on a freshly declared \<open>bundle\<close>: the error returned and the
  value \<open>bundle\<close> holds afterwards (on an error, whatever the decoder stored before it gave
  up). \<open>unmarshalMinimal bs\<close> is the same call on the one-field struct
  \<open>{DesiredAgentVersion}\<close>, \<open>marshalBundle\<close> is \<open>json.Marshal\<close> on a bundle.
\<close>

record 'app Bundle =
  Applications :: "'app list"
  DesiredAgentVersion :: string

record 'b json_codec =
  unmarshalBundle :: "bytes \<Rightarrow> error option \<times> 'b"
  unmarshalMinimal :: "bytes \<Rightarrow> error + string"
  marshalBundle :: "'b \<Rightarrow> error + bytes"

text \<open>\<open>json.Marshal\<close> of a pointer: a nil pointer encodes as the JSON value \<open>null\<close>.\<close>

definition json_Marshal :: "'b json_codec \<Rightarrow> 'b option \<Rightarrow> error + bytes" where
  "json_Marshal js p = (case p of None \<Rightarrow> Inr ''null'' | Some b \<Rightarrow> marshalBundle js b)"

definition mergeBundle ::
  "('app, 'z) Bundle_scheme json_codec \<Rightarrow> ('app, 'z) Bundle_scheme option \<Rightarrow> bytes
     \<Rightarrow> ('app, 'z) Bundle_scheme option" where
  "mergeBundle js oldBundle bundleBytes =
     (case unmarshalBundle js bundleBytes of
        (None, bundle) \<Rightarrow> Some bundle
      | (Some err, bundle) \<Rightarrow>
          (case unmarshalMinimal js bundleBytes of
             Inl err' \<Rightarrow> None
           | Inr minimalVersion \<Rightarrow>
               Some ((case oldBundle of Some old \<Rightarrow> old | None \<Rightarrow> bundle)
                       \<lparr>DesiredAgentVersion := minimalVersion\<rparr>)))"

subsection \<open>Package agent: the agent, its directory and its collaborators\<close>

record Agent =
  projectID :: string
  registrationToken :: string
  stateDir :: string
  serverPort :: nat

definition accessKeyFilename :: string where
  "accessKeyFilename = ''access-key''"

definition deviceIDFilename :: string where
  "deviceIDFilename = ''device-id''"

definition bundleFilename :: string where
  "bundleFilename = ''bundle''"

text \<open>Durations are counted in seconds.\<close>

definition time_Minute :: nat where
  "time_Minute = 60"

text \<open>
  The regular files of the agent's directory \<open>fileLocation()\<close>, that is
  \<open><stateDir>/<projectID>\<close>, by file name.
\<close>

type_synonym filesystem = "string \<rightharpoonup> bytes"

text \<open>
  What the operating system may answer beyond the content of the directory: for the file
  of a given name, the error of \<open>os.MkdirAll\<close> and of \<open>file.WriteFileAtomic\<close> when that
  file is written, the error of \<open>os.Stat\<close> other than "does not exist", and the error of
  \<open>ioutil.ReadFile\<close> on an existing file.
\<close>

record fs_faults =
  MkdirAll_error :: "string \<Rightarrow> error option"
  WriteFileAtomic_error :: "string \<Rightarrow> error option"
  Stat_error :: "string \<Rightarrow> error option"
  ReadFile_error :: "string \<Rightarrow> error option"

text \<open>
  The calls the agent makes on its collaborators, in the order it makes them. A context
  built by \<open>dpcontext.New(context.Background(), d)\<close> is the deadline \<open>d\<close>.
\<close>

datatype ('b, 'app) agent_event =
    RegisterDevice nat string
  | WroteFile string bytes
  | ReadFile string
  | SetAccessKey string
  | SetDeviceID string
  | Listen nat
  | SetListener nat
  | GetBundleBytes nat
  | SupervisorSet 'b "'app list"
  | GCSetBundle 'b
  | UpdaterSetDesiredVersion string
  | MetricsPusherSetBundle 'b

record ('b, 'app) world =
  files :: filesystem
  calls :: "('b, 'app) agent_event list"

definition call :: "('b, 'app) agent_event \<Rightarrow> ('b, 'app) world \<Rightarrow> ('b, 'app) world" where
  "call e w = w\<lparr>calls := calls w @ [e]\<rparr>"

datatype stat_result = StatOK | StatNotExist | StatError error

definition os_Stat :: "'x fs_faults_scheme \<Rightarrow> filesystem \<Rightarrow> string \<Rightarrow> stat_result" where
  "os_Stat io fs name =
     (case Stat_error io name of
        Some err \<Rightarrow> StatError err
      | None \<Rightarrow> (case fs name of None \<Rightarrow> StatNotExist | Some contents \<Rightarrow> StatOK))"

definition ioutil_ReadFile :: "'x fs_faults_scheme \<Rightarrow> filesystem \<Rightarrow> string \<Rightarrow> error + bytes" where
  "ioutil_ReadFile io fs name =
     (case fs name of
        None \<Rightarrow> Inl ''no such file or directory''
      | Some contents \<Rightarrow>
          (case ReadFile_error io name of Some err \<Rightarrow> Inl err | None \<Rightarrow> Inr contents))"

text \<open>
  Modelled from the spec: \<open>file.WriteFileAtomic\<close> (package file of this repository, not
  among the files at hand) writes a temporary file and renames it over the target, so
  the target holds either its previous content or the new content: on an error the file
  is as it was, on success it holds \<open>contents\<close>.
\<close>

definition file_WriteFileAtomic ::
  "'x fs_faults_scheme \<Rightarrow> string \<Rightarrow> bytes \<Rightarrow> ('b, 'app) world \<Rightarrow> error option \<times> ('b, 'app) world" where
  "file_WriteFileAtomic io name contents w =
     (case WriteFileAtomic_error io name of
        Some err \<Rightarrow> (Some err, w)
      | None \<Rightarrow> (None, call (WroteFile name contents) (w\<lparr>files := (files w)(name \<mapsto> contents)\<rparr>)))"

definition writeFile ::
  "'x fs_faults_scheme \<Rightarrow> bytes \<Rightarrow> string \<Rightarrow> ('b, 'app) world \<Rightarrow> error option \<times> ('b, 'app) world" where
  "writeFile io contents name w =
     (case MkdirAll_error io name of
        Some err \<Rightarrow> (Some err, w)
      | None \<Rightarrow>
          (case file_WriteFileAtomic io name contents w of
             (Some err, w') \<Rightarrow> (Some err, w')
           | (None, w') \<Rightarrow> (None, w')))"

subsection \<open>Package agent: registration and \<open>Initialize\<close>\<close>

record RegisterDeviceResponse =
  DeviceID :: string
  DeviceAccessKeyValue :: string

text \<open>
  The environment of one \<open>Initialize\<close>: the file-system faults, the answer of the control
  plane to \<open>RegisterDevice\<close>, and the outcomes of the successive \<open>net.Listen\<close> calls
  (\<open>True\<close>: the port was bound).
\<close>

record init_env = fs_faults +
  RegisterDevice_response :: "error + RegisterDeviceResponse"
  Listen_results :: "bool list"

definition register ::
  "init_env \<Rightarrow> Agent \<Rightarrow> ('b, 'app) world \<Rightarrow> error option \<times> ('b, 'app) world" where
  "register io a w =
     (let w1 = call (RegisterDevice time_Minute (registrationToken a)) w in
      case RegisterDevice_response io of
        Inl err \<Rightarrow> (Some (errors_Wrap err ''failed to register device''), w1)
      | Inr registerDeviceResponse \<Rightarrow>
          (case writeFile io (DeviceAccessKeyValue registerDeviceResponse) accessKeyFilename w1 of
             (Some err, w2) \<Rightarrow> (Some (errors_Wrap err ''failed to save access key''), w2)
           | (None, w2) \<Rightarrow>
               (case writeFile io (DeviceID registerDeviceResponse) deviceIDFilename w2 of
                  (Some err, w3) \<Rightarrow> (Some (errors_Wrap err ''failed to save device ID''), w3)
                | (None, w3) \<Rightarrow> (None, w3))))"

text \<open>
  The loop that binds the local server's port, one \<open>net.Listen\<close> per tick. It returns nil
  at the first success; \<open>None\<close> says that every outcome supplied was a failure and the
  loop is still waiting for its ticker.
\<close>

fun bindListener ::
  "nat \<Rightarrow> bool list \<Rightarrow> ('b, 'app) world \<Rightarrow> error option option \<times> ('b, 'app) world" where
  "bindListener port [] w = (None, w)"
| "bindListener port (bound # rest) w =
     (if bound then (Some None, call (SetListener port) (call (Listen port) w))
      else bindListener port rest (call (Listen port) w))"

definition Initialize ::
  "init_env \<Rightarrow> Agent \<Rightarrow> ('b, 'app) world \<Rightarrow> error option option \<times> ('b, 'app) world" where
  "Initialize io a w =
     (case (case os_Stat io (files w) accessKeyFilename of
              StatOK \<Rightarrow> (None, w)
            | StatNotExist \<Rightarrow>
                (case register io a w of
                   (Some err, w') \<Rightarrow> (Some (errors_Wrap err ''failed to register device''), w')
                 | (None, w') \<Rightarrow> (None, w'))
            | StatError err \<Rightarrow> (Some (errors_Wrap err ''failed to check for access key''), w)) of
        (Some err, w1) \<Rightarrow> (Some (Some err), w1)
      | (None, w1) \<Rightarrow>
          (case ioutil_ReadFile io (files w1) accessKeyFilename of
             Inl err \<Rightarrow>
               (Some (Some (errors_Wrap err ''failed to read access key'')),
                call (ReadFile accessKeyFilename) w1)
           | Inr accessKeyBytes \<Rightarrow>
               (let w2 = call (ReadFile accessKeyFilename) w1 in
                case ioutil_ReadFile io (files w2) deviceIDFilename of
                  Inl err \<Rightarrow>
                    (Some (Some (errors_Wrap err ''failed to read device ID'')),
                     call (ReadFile deviceIDFilename) w2)
                | Inr deviceIDBytes \<Rightarrow>
                    bindListener (serverPort a) (Listen_results io)
                      (call (SetDeviceID deviceIDBytes)
                        (call (SetAccessKey accessKeyBytes)
                          (call (ReadFile deviceIDFilename) w2))))))"

subsection \<open>Package agent: the bundle applier\<close>

text \<open>
  The environment of one cycle of the applier: the file-system faults and the answer of
  the control plane to \<open>GetBundleBytes\<close>.
\<close>

record cycle_env = fs_faults +
  GetBundleBytes_response :: "error + bytes"

definition downloadLatestBundle ::
  "('app, 'z) Bundle_scheme json_codec \<Rightarrow> cycle_env \<Rightarrow> ('app, 'z) Bundle_scheme option
     \<Rightarrow> (('app, 'z) Bundle_scheme, 'app) world
     \<Rightarrow> ('app, 'z) Bundle_scheme option \<times> (('app, 'z) Bundle_scheme, 'app) world" where
  "downloadLatestBundle js io oldBundle w =
     (let w1 = call (GetBundleBytes time_Minute) w in
      case GetBundleBytes_response io of
        Inl err \<Rightarrow> (None, w1)
      | Inr bundleBytes \<Rightarrow>
          (let bundle = mergeBundle js oldBundle bundleBytes in
           case json_Marshal js bundle of
             Inl err \<Rightarrow> (None, w1)
           | Inr marshalled \<Rightarrow>
               (case writeFile io marshalled bundleFilename w1 of
                  (Some err, w2) \<Rightarrow> (None, w2)
                | (None, w2) \<Rightarrow> (bundle, w2))))"

text \<open>
  \<open>loadSavedBundle\<close> retries on its ticker while \<open>os.Stat\<close> or \<open>ioutil.ReadFile\<close> fail,
  one element of the list per attempt; \<open>None\<close> says that it is still retrying after the
  attempts supplied, \<open>Some p\<close> that it returned the pointer \<open>p\<close>.
\<close>

fun loadSavedBundle ::
  "'b json_codec \<Rightarrow> 'x fs_faults_scheme list \<Rightarrow> filesystem \<Rightarrow> 'b option option" where
  "loadSavedBundle js [] fs = None"
| "loadSavedBundle js (io # ios) fs =
     (case os_Stat io fs bundleFilename of
        StatOK \<Rightarrow>
          (case ioutil_ReadFile io fs bundleFilename of
             Inl err \<Rightarrow> loadSavedBundle js ios fs
           | Inr savedBundleBytes \<Rightarrow>
               (case unmarshalBundle js savedBundleBytes of
                  (Some err, savedBundle) \<Rightarrow> Some None
                | (None, savedBundle) \<Rightarrow> Some (Some savedBundle)))
      | StatNotExist \<Rightarrow> Some None
      | StatError err \<Rightarrow> loadSavedBundle js ios fs)"

text \<open>The four calls that hand an accepted bundle downstream, in the order of the code.\<close>

definition dispatch ::
  "('app, 'z) Bundle_scheme \<Rightarrow> (('app, 'z) Bundle_scheme, 'app) agent_event list" where
  "dispatch bundle =
     [SupervisorSet bundle (Applications bundle),
      GCSetBundle bundle,
      UpdaterSetDesiredVersion (DesiredAgentVersion bundle),
      MetricsPusherSetBundle bundle]"

text \<open>
  One iteration of the loop of \<open>runBundleApplier\<close>, on the loop's variable \<open>bundle\<close> and
  the world.
\<close>

definition runBundleApplier_cycle ::
  "('app, 'z) Bundle_scheme json_codec \<Rightarrow> cycle_env
     \<Rightarrow> ('app, 'z) Bundle_scheme option \<times> (('app, 'z) Bundle_scheme, 'app) world
     \<Rightarrow> ('app, 'z) Bundle_scheme option \<times> (('app, 'z) Bundle_scheme, 'app) world" where
  "runBundleApplier_cycle js io st =
     (case downloadLatestBundle js io (fst st) (snd st) of
        (None, w') \<Rightarrow> (None, w')
      | (Some bundle, w') \<Rightarrow> (Some bundle, w'\<lparr>calls := calls w' @ dispatch bundle\<rparr>))"

fun runBundleApplier_loop ::
  "('app, 'z) Bundle_scheme json_codec \<Rightarrow> cycle_env list
     \<Rightarrow> ('app, 'z) Bundle_scheme option \<times> (('app, 'z) Bundle_scheme, 'app) world
     \<Rightarrow> ('app, 'z) Bundle_scheme option \<times> (('app, 'z) Bundle_scheme, 'app) world" where
  "runBundleApplier_loop js [] st = st"
| "runBundleApplier_loop js (io # ios) st =
     runBundleApplier_loop js ios (runBundleApplier_cycle js io st)"

text \<open>
  \<open>runBundleApplier\<close> never returns: the value is the loop's state after the cycles whose
  environments are supplied, \<open>None\<close> while \<open>loadSavedBundle\<close> has not returned.
\<close>

definition runBundleApplier ::
  "('app, 'z) Bundle_scheme json_codec \<Rightarrow> fs_faults list \<Rightarrow> cycle_env list
     \<Rightarrow> (('app, 'z) Bundle_scheme, 'app) world
     \<Rightarrow> (('app, 'z) Bundle_scheme option \<times> (('app, 'z) Bundle_scheme, 'app) world) option" where
  "runBundleApplier js boot ios w =
     (case loadSavedBundle js boot (files w) of
        None \<Rightarrow> None
      | Some None \<Rightarrow> Some (runBundleApplier_loop js ios (None, w))
      | Some (Some bundle) \<Rightarrow>
          Some (runBundleApplier_loop js ios
                  (Some bundle, call (SupervisorSet bundle (Applications bundle)) w)))"

subsection \<open>Package supervisor: the reporter\<close>

text \<open>
  The two request types are declared outside the files at hand; the reporter reads
  \<open>CurrentReleaseID\<close> of the one, \<open>State\<close> and \<open>ErrorMessage\<close> of the other.
\<close>

record SetDeviceServiceStatusRequest =
  CurrentReleaseID :: string

record SetDeviceServiceStateRequest =
  State :: string
  ErrorMessage :: string

text \<open>
  The fields of \<open>Reporter\<close> that its methods read and write. \<open>once\<close> says that
  \<open>sync.Once\<close> has fired, that is, that the three reporter goroutines run. The three
  callbacks are the environment: what they return is a parameter of each tick.
\<close>

record Reporter =
  applicationID :: string
  desiredApplicationRelease :: string
  desiredApplicationServiceNames :: "string set"
  reportedApplicationRelease :: string
  serviceStatuses :: "string \<rightharpoonup> SetDeviceServiceStatusRequest"
  reportedServiceStatuses :: "string \<rightharpoonup> SetDeviceServiceStatusRequest"
  serviceStates :: "string \<rightharpoonup> SetDeviceServiceStateRequest"
  reportedServiceStates :: "string \<rightharpoonup> SetDeviceServiceStateRequest"
  once :: bool

definition NewReporter :: "string \<Rightarrow> Reporter" where
  "NewReporter appID =
     \<lparr>applicationID = appID,
      desiredApplicationRelease = [],
      desiredApplicationServiceNames = {},
      reportedApplicationRelease = [],
      serviceStatuses = Map.empty,
      reportedServiceStatuses = Map.empty,
      serviceStates = Map.empty,
      reportedServiceStates = Map.empty,
      once = False\<rparr>"

text \<open>
  \<open>applicationConfig\<close> is a Go map, of which the method visits the keys: it is given by
  its entries.
\<close>

definition SetDesiredApplication :: "string \<Rightarrow> (string \<times> Service) list \<Rightarrow> Reporter \<Rightarrow> Reporter" where
  "SetDesiredApplication release applicationConfig r =
     (let serviceNames = foldl (\<lambda>names entry. insert (fst entry) names) {} applicationConfig
      in r\<lparr>desiredApplicationRelease := release,
            desiredApplicationServiceNames := serviceNames,
            once := True\<rparr>)"

definition SetServiceStatus :: "string \<Rightarrow> SetDeviceServiceStatusRequest \<Rightarrow> Reporter \<Rightarrow> Reporter" where
  "SetServiceStatus serviceName status r =
     r\<lparr>serviceStatuses := (serviceStatuses r)(serviceName \<mapsto> status)\<rparr>"

definition SetServiceState :: "string \<Rightarrow> SetDeviceServiceStateRequest \<Rightarrow> Reporter \<Rightarrow> Reporter" where
  "SetServiceState serviceName state r =
     r\<lparr>serviceStates := (serviceStates r)(serviceName \<mapsto> state)\<rparr>"

text \<open>
  \<open>range\<close> visits the entries of a Go map in an order that the runtime chooses. The
  choice is a parameter: a list of keys, and the entries are visited as their keys
  stand in the list. The list fits a map when it has no key twice and misses none of
  the map's keys.
\<close>

definition range_map :: "string list \<Rightarrow> (string \<rightharpoonup> 'v) \<Rightarrow> (string \<times> 'v) list" where
  "range_map order m = List.map_filter (\<lambda>k. map_option (Pair k) (m k)) order"

definition range_set :: "string list \<Rightarrow> string set \<Rightarrow> string list" where
  "range_set order s = filter (\<lambda>k. k \<in> s) order"

definition visits :: "string list \<Rightarrow> string set \<Rightarrow> bool" where
  "visits order keys \<longleftrightarrow> distinct order \<and> keys \<subseteq> set order"

text \<open>
  What the reporter does that others see: the calls it receives and the calls it makes
  on its three callbacks, each with the error the callback returned.
\<close>

datatype reporter_event =
    CallSetDesiredApplication string "string list"
  | CallSetServiceStatus string SetDeviceServiceStatusRequest
  | CallSetServiceState string SetDeviceServiceStateRequest
  | ReportApplicationStatus string string "error option"
  | ReportServiceStatus string string SetDeviceServiceStatusRequest "error option"
  | ReportServiceState string string SetDeviceServiceStateRequest "error option"

text \<open>
  The gate of \<open>applicationStatusReporter\<close>, the loop over
  \<open>desiredApplicationServiceNames\<close>: \<open>False\<close> is the \<open>goto cont\<close>.
\<close>

fun servicesAtRelease ::
  "string list \<Rightarrow> (string \<rightharpoonup> SetDeviceServiceStatusRequest) \<Rightarrow> string \<Rightarrow> bool" where
  "servicesAtRelease [] statuses releaseToReport = True"
| "servicesAtRelease (serviceName # rest) statuses releaseToReport =
     (case statuses serviceName of
        None \<Rightarrow> False
      | Some status \<Rightarrow>
          (if CurrentReleaseID status \<noteq> releaseToReport then False
           else servicesAtRelease rest statuses releaseToReport))"

text \<open>
  One iteration of the loop of \<open>applicationStatusReporter\<close>: the state after it and the
  calls made. \<open>reported\<close> is what \<open>reportApplicationStatus\<close> returns in this iteration.
\<close>

definition applicationStatusReporter_tick ::
  "string list \<Rightarrow> error option \<Rightarrow> Reporter \<Rightarrow> Reporter \<times> reporter_event list" where
  "applicationStatusReporter_tick order reported r =
     (let releaseToReport = desiredApplicationRelease r in
      if releaseToReport = reportedApplicationRelease r then (r, [])
      else if \<not> servicesAtRelease (range_set order (desiredApplicationServiceNames r))
                  (serviceStatuses r) releaseToReport
      then (r, [])
      else
        (case reported of
           Some err \<Rightarrow> (r, [ReportApplicationStatus (applicationID r) releaseToReport (Some err)])
         | None \<Rightarrow>
             (r\<lparr>reportedApplicationRelease := releaseToReport\<rparr>,
              [ReportApplicationStatus (applicationID r) releaseToReport None])))"

text \<open>
  The service-status and the service-state reporter have one shape and share the two
  loops below, with the comparison of a reported value with a current one as a
  parameter. The first loop, under the read lock, builds \<open>diff\<close> and \<open>copy\<close>.
\<close>

fun diffAndCopy ::
  "('v \<Rightarrow> 'v \<Rightarrow> bool) \<Rightarrow> (string \<rightharpoonup> 'v) \<Rightarrow> (string \<times> 'v) list
     \<Rightarrow> (string \<rightharpoonup> 'v) \<times> (string \<rightharpoonup> 'v) \<Rightarrow> (string \<rightharpoonup> 'v) \<times> (string \<rightharpoonup> 'v)" where
  "diffAndCopy differs reported [] (diff, copy) = (diff, copy)"
| "diffAndCopy differs reported ((service, current) # rest) (diff, copy) =
     diffAndCopy differs reported rest
       ((case reported service of
           None \<Rightarrow> diff(service \<mapsto> current)
         | Some reportedValue \<Rightarrow>
             (if differs reportedValue current then diff(service \<mapsto> current) else diff)),
        copy(service \<mapsto> current))"

text \<open>
  The second loop publishes the entries of \<open>diff\<close>: the calls made, each with the error
  returned, and whether the loop ran to its end (\<open>False\<close> is the \<open>goto cont\<close> at the first
  error).
\<close>

fun publishDiff ::
  "(string \<Rightarrow> 'v \<Rightarrow> error option) \<Rightarrow> (string \<times> 'v) list
     \<Rightarrow> (string \<times> 'v \<times> error option) list \<times> bool" where
  "publishDiff report [] = ([], True)"
| "publishDiff report ((serviceName, current) # rest) =
     (case report serviceName current of
        Some err \<Rightarrow> ([(serviceName, current, Some err)], False)
      | None \<Rightarrow>
          (case publishDiff report rest of
             (made, finished) \<Rightarrow> ((serviceName, current, None) # made, finished)))"

definition statusDiffers :: "SetDeviceServiceStatusRequest \<Rightarrow> SetDeviceServiceStatusRequest \<Rightarrow> bool" where
  "statusDiffers reportedStatus status \<longleftrightarrow>
     CurrentReleaseID reportedStatus \<noteq> CurrentReleaseID status"

definition stateDiffers :: "SetDeviceServiceStateRequest \<Rightarrow> SetDeviceServiceStateRequest \<Rightarrow> bool" where
  "stateDiffers reportedState state \<longleftrightarrow>
     State reportedState \<noteq> State state \<or> ErrorMessage reportedState \<noteq> ErrorMessage state"

text \<open>
  One iteration of the loop of \<open>serviceStatusReporter\<close>. \<open>order\<close> is the order of the
  \<open>range\<close> over \<open>serviceStatuses\<close>, \<open>order'\<close> that of the \<open>range\<close> over \<open>diff\<close>, and
  \<open>report\<close> is what \<open>reportServiceStatus\<close> returns for a service in this iteration. The
  assignment \<open>reportedServiceStatuses = copy\<close> stands between the loop and the label
  \<open>cont\<close>: the \<open>goto\<close> jumps over it.
\<close>

definition serviceStatusReporter_tick ::
  "string list \<Rightarrow> string list \<Rightarrow> (string \<Rightarrow> SetDeviceServiceStatusRequest \<Rightarrow> error option)
     \<Rightarrow> Reporter \<Rightarrow> Reporter \<times> reporter_event list" where
  "serviceStatusReporter_tick order order' report r =
     (case diffAndCopy statusDiffers (reportedServiceStatuses r)
             (range_map order (serviceStatuses r)) (Map.empty, Map.empty) of
        (diff, copy) \<Rightarrow>
          (case publishDiff report (range_map order' diff) of
             (made, finished) \<Rightarrow>
               (if finished then r\<lparr>reportedServiceStatuses := copy\<rparr> else r,
                map (\<lambda>(serviceName, status, err).
                       ReportServiceStatus (applicationID r) serviceName status err) made)))"

definition serviceStateReporter_tick ::
  "string list \<Rightarrow> string list \<Rightarrow> (string \<Rightarrow> SetDeviceServiceStateRequest \<Rightarrow> error option)
     \<Rightarrow> Reporter \<Rightarrow> Reporter \<times> reporter_event list" where
  "serviceStateReporter_tick order order' report r =
     (case diffAndCopy stateDiffers (reportedServiceStates r)
             (range_map order (serviceStates r)) (Map.empty, Map.empty) of
        (diff, copy) \<Rightarrow>
          (case publishDiff report (range_map order' diff) of
             (made, finished) \<Rightarrow>
               (if finished then r\<lparr>reportedServiceStates := copy\<rparr> else r,
                map (\<lambda>(serviceName, state, err).
                       ReportServiceState (applicationID r) serviceName state err) made)))"

text \<open>
  The executions of a reporter: the state reached and what happened on the way. The
  methods run under the write lock and the first loop of every tick under the read
  lock, so each is one step; the fields a tick writes after its lock is released
  (\<open>reportedApplicationRelease\<close>, \<open>reportedServiceStatuses\<close>, \<open>reportedServiceStates\<close>) are
  read and written by that goroutine alone, so the whole tick is one step, taken where
  its locked part is. The ticks need the goroutines to run. \<open>Stop\<close> ends an execution:
  every execution is the beginning of a longer one, so nothing is lost by leaving the
  cancellation out.
\<close>

inductive reporter_run :: "string \<Rightarrow> Reporter \<Rightarrow> reporter_event list \<Rightarrow> bool"
  for appID :: string where
  run_New: "reporter_run appID (NewReporter appID) []"
| run_SetDesiredApplication:
    "reporter_run appID r t \<Longrightarrow>
     reporter_run appID (SetDesiredApplication release applicationConfig r)
       (t @ [CallSetDesiredApplication release (map fst applicationConfig)])"
| run_SetServiceStatus:
    "reporter_run appID r t \<Longrightarrow>
     reporter_run appID (SetServiceStatus serviceName status r)
       (t @ [CallSetServiceStatus serviceName status])"
| run_SetServiceState:
    "reporter_run appID r t \<Longrightarrow>
     reporter_run appID (SetServiceState serviceName state r)
       (t @ [CallSetServiceState serviceName state])"
| run_applicationStatusReporter:
    "reporter_run appID r t \<Longrightarrow> once r \<Longrightarrow>
     visits order (desiredApplicationServiceNames r) \<Longrightarrow>
     reporter_run appID (fst (applicationStatusReporter_tick order reported r))
       (t @ snd (applicationStatusReporter_tick order reported r))"
| run_serviceStatusReporter:
    "reporter_run appID r t \<Longrightarrow> once r \<Longrightarrow>
     visits order (dom (serviceStatuses r)) \<Longrightarrow> visits order' (dom (serviceStatuses r)) \<Longrightarrow>
     reporter_run appID (fst (serviceStatusReporter_tick order order' report r))
       (t @ snd (serviceStatusReporter_tick order order' report r))"
| run_serviceStateReporter:
    "reporter_run appID r t \<Longrightarrow> once r \<Longrightarrow>
     visits order (dom (serviceStates r)) \<Longrightarrow> visits order' (dom (serviceStates r)) \<Longrightarrow>
     reporter_run appID (fst (serviceStateReporter_tick order order' report r))
       (t @ snd (serviceStateReporter_tick order order' report r))"

subsection \<open>Auxiliary notions and fixtures\<close>

text \<open>
  A property of call sequences, used to state the order of dispatch over a whole run:
  every \<open>GCSetBundle b\<close> stands directly after \<open>SupervisorSet b\<close> and directly before
  \<open>UpdaterSetDesiredVersion\<close> and \<open>MetricsPusherSetBundle b\<close>.
\<close>

definition dispatch_in_order :: "(('app, 'z) Bundle_scheme, 'app) agent_event list \<Rightarrow> bool" where
  "dispatch_in_order t \<longleftrightarrow>
     (\<forall>i < length t. \<forall>b. t ! i = GCSetBundle b \<longrightarrow>
        0 < i \<and> t ! (i - 1) = SupervisorSet b (Applications b) \<and> i + 2 < length t
        \<and> t ! (i + 1) = UpdaterSetDesiredVersion (DesiredAgentVersion b)
        \<and> t ! (i + 2) = MetricsPusherSetBundle b)"

text \<open>
  A small stand-in for the JSON library and two bundles, on which the functions above are
  evaluated. The decoder knows one full payload, one payload that only the minimal
  struct accepts (the control plane's schema has drifted), and rejects everything else
  leaving the destination at its zero value.
\<close>

definition fixture_bundle :: "string Bundle" where
  "fixture_bundle = \<lparr>Applications = [''A'', ''B''], DesiredAgentVersion = ''1.0''\<rparr>"

definition fixture_zero :: "string Bundle" where
  "fixture_zero = \<lparr>Applications = [], DesiredAgentVersion = []\<rparr>"

definition fixture_codec :: "string Bundle json_codec" where
  "fixture_codec =
     \<lparr>unmarshalBundle = (\<lambda>bs.
        if bs = ''applications A,B; desiredAgentVersion 1.0'' then (None, fixture_bundle)
        else (Some ''json: cannot unmarshal'', fixture_zero)),
      unmarshalMinimal = (\<lambda>bs.
        if bs = ''applications A,B; desiredAgentVersion 1.0'' then Inr ''1.0''
        else if bs = ''applications (new schema); desiredAgentVersion 9.9.9'' then Inr ''9.9.9''
        else Inl ''json: invalid character''),
      marshalBundle = (\<lambda>b.
        Inr (''applications '' @ concat (Applications b) @ ''; desiredAgentVersion ''
               @ DesiredAgentVersion b))\<rparr>"

definition fixture_cycle :: "error + bytes \<Rightarrow> cycle_env" where
  "fixture_cycle response =
     \<lparr>MkdirAll_error = (\<lambda>name. None), WriteFileAtomic_error = (\<lambda>name. None),
      Stat_error = (\<lambda>name. None), ReadFile_error = (\<lambda>name. None),
      GetBundleBytes_response = response\<rparr>"

definition fixture_init :: "error + RegisterDeviceResponse \<Rightarrow> bool list \<Rightarrow> init_env" where
  "fixture_init response listens =
     \<lparr>MkdirAll_error = (\<lambda>name. None), WriteFileAtomic_error = (\<lambda>name. None),
      Stat_error = (\<lambda>name. None), ReadFile_error = (\<lambda>name. None),
      RegisterDevice_response = response, Listen_results = listens\<rparr>"

definition fixture_agent :: Agent where
  "fixture_agent =
     \<lparr>projectID = ''prj_1'', registrationToken = ''TKN'', stateDir = ''/var/lib/deviceplane'',
      serverPort = 4444\<rparr>"

definition no_faults :: fs_faults where
  "no_faults =
     \<lparr>MkdirAll_error = (\<lambda>name. None), WriteFileAtomic_error = (\<lambda>name. None),
      Stat_error = (\<lambda>name. None), ReadFile_error = (\<lambda>name. None)\<rparr>"

text \<open>
  A reporter of application \<open>A\<close> with the services \<open>api\<close> and \<open>db\<close> desired at release
  \<open>R1\<close>, both seen running that release, and nothing reported yet.
\<close>

definition fixture_service :: Service where
  "fixture_service = \<lparr>Command = [], Entrypoint = []\<rparr>"

definition fixture_reporter :: Reporter where
  "fixture_reporter =
     SetServiceStatus ''db'' \<lparr>CurrentReleaseID = ''R1''\<rparr>
       (SetServiceStatus ''api'' \<lparr>CurrentReleaseID = ''R1''\<rparr>
         (SetDesiredApplication ''R1'' [(''api'', fixture_service), (''db'', fixture_service)] (NewReporter ''A'')))"

section \<open>Properties\<close>

subsection \<open>The custom-commands validator\<close>

text \<open>
  C9. With custom commands disabled and a service that has a non-empty command or a
  non-empty entrypoint, \<open>Validate\<close> returns exactly the error
  "custom commands are disabled on this device"; with custom commands allowed, or with a
  service whose command and entrypoint are both empty, it returns nil.
\<close>

theorem Validate_custom_commands:
  "(GetDisableCustomCommands (variables i) \<and> (Command s \<noteq> [] \<or> Entrypoint s \<noteq> [])
      \<longrightarrow> Validate i s = Some ''custom commands are disabled on this device'')
   \<and> ((\<not> GetDisableCustomCommands (variables i)) \<or> (Command s = [] \<and> Entrypoint s = [])
      \<longrightarrow> Validate i s = None)"
  by (simp add: Validate_def ErrCustomCommandsAreDisabled_def)

theorem Validate_custom_commands_witness:
  "Validate (NewValidator \<lparr>GetDisableCustomCommands = True\<rparr>)
       \<lparr>Command = [''sh'', ''-c'', ''reboot''], Entrypoint = []\<rparr>
     = Some ''custom commands are disabled on this device''
   \<and> Validate (NewValidator \<lparr>GetDisableCustomCommands = True\<rparr>)
       \<lparr>Command = [], Entrypoint = [''/bin/init'']\<rparr>
     = Some ''custom commands are disabled on this device''
   \<and> Validate (NewValidator \<lparr>GetDisableCustomCommands = False\<rparr>)
       \<lparr>Command = [''sh''], Entrypoint = []\<rparr> = None
   \<and> Validate (NewValidator \<lparr>GetDisableCustomCommands = True\<rparr>)
       \<lparr>Command = [], Entrypoint = []\<rparr> = None"
  using
    Validate_custom_commands [of "NewValidator \<lparr>GetDisableCustomCommands = True\<rparr>"
      "\<lparr>Command = [''sh'', ''-c'', ''reboot''], Entrypoint = []\<rparr>"]
    Validate_custom_commands [of "NewValidator \<lparr>GetDisableCustomCommands = True\<rparr>"
      "\<lparr>Command = [], Entrypoint = [''/bin/init'']\<rparr>"]
    Validate_custom_commands [of "NewValidator \<lparr>GetDisableCustomCommands = False\<rparr>"
      "\<lparr>Command = [''sh''], Entrypoint = []\<rparr>"]
    Validate_custom_commands [of "NewValidator \<lparr>GetDisableCustomCommands = True\<rparr>"
      "\<lparr>Command = [], Entrypoint = []\<rparr>"]
  by (simp add: NewValidator_def)

subsection \<open>Merging a downloaded payload with the previous bundle\<close>

text \<open>
  C4. For a previous bundle \<open>B\<close> and a payload that fails to unmarshal as a full bundle
  while its minimal projection unmarshals to the version \<open>v\<close>, \<open>mergeBundle\<close> returns \<open>B\<close>
  with \<open>DesiredAgentVersion\<close> replaced by \<open>v\<close> and every other field as it was (whatever
  the failed decoding left in the fresh destination is overwritten by the copy of \<open>B\<close>);
  for a payload that unmarshals as a full bundle the result is the parsed bundle,
  whatever the previous bundle is.
\<close>

theorem mergeBundle_minimal_keeps_previous:
  "(unmarshalBundle js payload = (Some err, residue) \<and> unmarshalMinimal js payload = Inr v
      \<longrightarrow> mergeBundle js (Some B) payload = Some (B\<lparr>DesiredAgentVersion := v\<rparr>))
   \<and> (unmarshalBundle js payload = (None, parsed)
      \<longrightarrow> mergeBundle js oldBundle payload = Some parsed)"
  by (simp add: mergeBundle_def)

theorem mergeBundle_minimal_keeps_previous_witness:
  "mergeBundle fixture_codec (Some fixture_bundle)
       ''applications (new schema); desiredAgentVersion 9.9.9''
     = Some \<lparr>Applications = [''A'', ''B''], DesiredAgentVersion = ''9.9.9''\<rparr>
   \<and> mergeBundle fixture_codec (Some \<lparr>Applications = [''C''], DesiredAgentVersion = ''0.9''\<rparr>)
       ''applications A,B; desiredAgentVersion 1.0''
     = Some \<lparr>Applications = [''A'', ''B''], DesiredAgentVersion = ''1.0''\<rparr>"
  using
    mergeBundle_minimal_keeps_previous [of fixture_codec
      "''applications (new schema); desiredAgentVersion 9.9.9''" "''json: cannot unmarshal''"
      fixture_zero "''9.9.9''" fixture_bundle fixture_bundle None]
    mergeBundle_minimal_keeps_previous [of fixture_codec
      "''applications A,B; desiredAgentVersion 1.0''" "''x''" fixture_zero "''1.0''"
      fixture_bundle fixture_bundle "Some \<lparr>Applications = [''C''], DesiredAgentVersion = ''0.9''\<rparr>"]
  by (simp add: fixture_codec_def fixture_bundle_def fixture_zero_def)

subsection \<open>A cycle of the applier that accepts nothing\<close>

text \<open>When \<open>downloadLatestBundle\<close> returns nil: the four ways.\<close>

lemma downloadLatestBundle_nil_iff:
  "fst (downloadLatestBundle js io oldBundle w) = None \<longleftrightarrow>
     (case GetBundleBytes_response io of
        Inl err \<Rightarrow> True
      | Inr bundleBytes \<Rightarrow>
          mergeBundle js oldBundle bundleBytes = None
          \<or> isl (json_Marshal js (mergeBundle js oldBundle bundleBytes))
          \<or> MkdirAll_error io bundleFilename \<noteq> None
          \<or> WriteFileAtomic_error io bundleFilename \<noteq> None)"
  by (auto simp: downloadLatestBundle_def Let_def writeFile_def file_WriteFileAtomic_def
      split: sum.splits option.splits prod.splits)



text \<open>
  A payload that neither struct accepts makes \<open>mergeBundle\<close> return nil, and
  \<open>downloadLatestBundle\<close> goes on with that nil pointer: it is marshalled, to \<open>null\<close>, and
  written over the bundle file.
\<close>

lemma downloadLatestBundle_both_fail:
  assumes "GetBundleBytes_response io = Inr payload"
    and "unmarshalBundle js payload = (Some err, residue)"
    and "unmarshalMinimal js payload = Inl err'"
    and "MkdirAll_error io bundleFilename = None"
    and "WriteFileAtomic_error io bundleFilename = None"
  shows "downloadLatestBundle js io oldBundle w =
           (None, \<lparr>files = (files w)(bundleFilename \<mapsto> ''null''),
                   calls = calls w @ [GetBundleBytes time_Minute, WroteFile bundleFilename ''null'']\<rparr>)"
  using assms
  by (simp add: downloadLatestBundle_def Let_def mergeBundle_def json_Marshal_def writeFile_def
      file_WriteFileAtomic_def call_def)

text \<open>
  C5. When the downloaded bytes fail both the full parse and the minimal parse, the cycle
  hands nothing downstream, and (so the claim) the bundle file still holds the previous
  bundle's JSON. The code does the first and not the second. Evaluated on a payload that
  both decoders reject, with the previous bundle \<open>A, B\<close> at version 1.0 in memory and on
  disk: the loop's variable becomes nil, no downstream call is made, and the bundle file
  holds \<open>null\<close>.
\<close>

theorem both_parses_fail_overwrites_bundle_file:
  "runBundleApplier_cycle fixture_codec (fixture_cycle (Inr ''<html>502 Bad Gateway</html>''))
      (Some fixture_bundle,
       \<lparr>files = [bundleFilename \<mapsto> ''applications AB; desiredAgentVersion 1.0''], calls = []\<rparr>)
   = (None,
      \<lparr>files = [bundleFilename \<mapsto> ''null''],
       calls = [GetBundleBytes 60, WroteFile ''bundle'' ''null'']\<rparr>)"
  by (simp add: runBundleApplier_cycle_def downloadLatestBundle_def mergeBundle_def
      fixture_codec_def fixture_cycle_def json_Marshal_def writeFile_def
      file_WriteFileAtomic_def call_def bundleFilename_def time_Minute_def)



subsection \<open>The order of dispatch\<close>

text \<open>
  What a cycle adds to the calls: the download's own calls, none of them to the garbage
  collector, then the dispatch of the accepted bundle, if there is one.
\<close>

lemma downloadLatestBundle_calls:
  "\<exists>pre. calls (snd (downloadLatestBundle js io oldBundle w)) = calls w @ pre
      \<and> (\<forall>e \<in> set pre. \<forall>b. e \<noteq> GCSetBundle b)"
  by (auto simp: downloadLatestBundle_def Let_def writeFile_def file_WriteFileAtomic_def call_def
      split: sum.splits option.splits prod.splits)

lemma runBundleApplier_cycle_calls:
  "\<exists>pre. calls (snd (runBundleApplier_cycle js io st)) =
           (calls (snd st) @ pre)
             @ (case fst (runBundleApplier_cycle js io st) of None \<Rightarrow> [] | Some b \<Rightarrow> dispatch b)
      \<and> (\<forall>e \<in> set pre. \<forall>b. e \<noteq> GCSetBundle b)"
proof -
  obtain pre where pre:
    "calls (snd (downloadLatestBundle js io (fst st) (snd st))) = calls (snd st) @ pre"
    "\<forall>e \<in> set pre. \<forall>b. e \<noteq> GCSetBundle b"
    using downloadLatestBundle_calls by blast
  show ?thesis
    using pre
    by (cases "downloadLatestBundle js io (fst st) (snd st)")
       (auto simp: runBundleApplier_cycle_def split: option.splits)
qed

lemma dispatch_in_order_append_other:
  assumes t: "dispatch_in_order t"
    and pre: "\<forall>e \<in> set pre. \<forall>b. e \<noteq> GCSetBundle b"
  shows "dispatch_in_order (t @ pre)"
  unfolding dispatch_in_order_def
proof (intro allI impI)
  fix i b
  assume i: "i < length (t @ pre)" and gc: "(t @ pre) ! i = GCSetBundle b"
  show "0 < i \<and> (t @ pre) ! (i - 1) = SupervisorSet b (Applications b) \<and> i + 2 < length (t @ pre)
        \<and> (t @ pre) ! (i + 1) = UpdaterSetDesiredVersion (DesiredAgentVersion b)
        \<and> (t @ pre) ! (i + 2) = MetricsPusherSetBundle b"
  proof (cases "i < length t")
    case True
    with gc have "t ! i = GCSetBundle b" by (simp add: nth_append)
    with t True have
      "0 < i \<and> t ! (i - 1) = SupervisorSet b (Applications b) \<and> i + 2 < length t
        \<and> t ! (i + 1) = UpdaterSetDesiredVersion (DesiredAgentVersion b)
        \<and> t ! (i + 2) = MetricsPusherSetBundle b"
      unfolding dispatch_in_order_def by blast
    then show ?thesis by (auto simp: nth_append)
  next
    case False
    with i gc have "pre ! (i - length t) = GCSetBundle b" "i - length t < length pre"
      by (auto simp: nth_append)
    with pre show ?thesis by (metis nth_mem)
  qed
qed

lemma dispatch_in_order_append_dispatch:
  assumes t: "dispatch_in_order t"
  shows "dispatch_in_order (t @ dispatch c)"
  unfolding dispatch_in_order_def
proof (intro allI impI)
  fix i b
  assume i: "i < length (t @ dispatch c)" and gc: "(t @ dispatch c) ! i = GCSetBundle b"
  show "0 < i \<and> (t @ dispatch c) ! (i - 1) = SupervisorSet b (Applications b)
        \<and> i + 2 < length (t @ dispatch c)
        \<and> (t @ dispatch c) ! (i + 1) = UpdaterSetDesiredVersion (DesiredAgentVersion b)
        \<and> (t @ dispatch c) ! (i + 2) = MetricsPusherSetBundle b"
  proof (cases "i < length t")
    case True
    with gc have "t ! i = GCSetBundle b" by (simp add: nth_append)
    with t True have
      "0 < i \<and> t ! (i - 1) = SupervisorSet b (Applications b) \<and> i + 2 < length t
        \<and> t ! (i + 1) = UpdaterSetDesiredVersion (DesiredAgentVersion b)
        \<and> t ! (i + 2) = MetricsPusherSetBundle b"
      unfolding dispatch_in_order_def by blast
    then show ?thesis by (auto simp: nth_append)
  next
    case False
    define k where "k = i - length t"
    have ik: "i = length t + k" using False by (simp add: k_def)
    have k4: "k < 4" using i ik by (simp add: dispatch_def)
    have "dispatch c ! k = GCSetBundle b" using gc ik by (simp add: nth_append)
    then have "k = 1 \<and> b = c"
      using k4 by (cases k; cases "k - 1"; cases "k - 2"; cases "k - 3")
        (auto simp: dispatch_def)
    then show ?thesis using ik by (simp add: nth_append dispatch_def)
  qed
qed

lemma runBundleApplier_cycle_order:
  assumes "dispatch_in_order (calls (snd st))"
  shows "dispatch_in_order (calls (snd (runBundleApplier_cycle js io st)))"
proof -
  obtain pre where pre:
    "calls (snd (runBundleApplier_cycle js io st)) =
           (calls (snd st) @ pre)
             @ (case fst (runBundleApplier_cycle js io st) of None \<Rightarrow> [] | Some b \<Rightarrow> dispatch b)"
    "\<forall>e \<in> set pre. \<forall>b. e \<noteq> GCSetBundle b"
    using runBundleApplier_cycle_calls by blast
  note mid = dispatch_in_order_append_other [OF assms pre(2)]
  show ?thesis
  proof (cases "fst (runBundleApplier_cycle js io st)")
    case None
    with pre(1) mid show ?thesis by simp
  next
    case (Some c)
    with pre(1) dispatch_in_order_append_dispatch [OF mid, of c] show ?thesis by simp
  qed
qed

lemma runBundleApplier_loop_order:
  "dispatch_in_order (calls (snd st))
     \<Longrightarrow> dispatch_in_order (calls (snd (runBundleApplier_loop js ios st)))"
proof (induction ios arbitrary: st)
  case Nil
  then show ?case by simp
next
  case (Cons io ios)
  show ?case
    using Cons.IH [OF runBundleApplier_cycle_order [OF Cons.prems, of js io]] by simp
qed

lemma runBundleApplier_order:
  assumes "calls w = []" and "runBundleApplier js boot ios w = Some (bundle', w')"
  shows "dispatch_in_order (calls w')"
proof -
  from assms(2) obtain s w0 where
    run: "runBundleApplier_loop js ios (s, w0) = (bundle', w')"
    and w0: "w0 = w \<or> (\<exists>saved. w0 = call (SupervisorSet saved (Applications saved)) w)"
    by (auto simp: runBundleApplier_def split: option.splits)
  have "dispatch_in_order (calls w0)"
    using w0 assms(1) by (auto simp: call_def dispatch_in_order_def)
  then have "dispatch_in_order (calls (snd (runBundleApplier_loop js ios (s, w0))))"
    by (intro runBundleApplier_loop_order) simp
  with run show ?thesis by simp
qed

text \<open>
  C8. A cycle that accepts a bundle dispatches it in one fixed order: \<open>Supervisor.Set\<close>,
  then \<open>statusGarbageCollector.SetBundle\<close>, then \<open>updater.SetDesiredVersion\<close> and
  \<open>metricsPusher.SetBundle\<close>. Over a whole run of the applier, from the saved bundle
  through any number of cycles, every \<open>GCSetBundle b\<close> has \<open>SupervisorSet b\<close> directly
  before it and the two other calls directly after it: the collector is never told of a
  bundle before the supervisor.
\<close>

theorem dispatch_order_fixed:
  "(fst (runBundleApplier_cycle js io st) = Some c \<longrightarrow>
      calls (snd (runBundleApplier_cycle js io st)) =
        calls (snd (downloadLatestBundle js io (fst st) (snd st)))
          @ [SupervisorSet c (Applications c), GCSetBundle c,
             UpdaterSetDesiredVersion (DesiredAgentVersion c), MetricsPusherSetBundle c])
   \<and> (calls w = [] \<and> runBundleApplier js boot ios w = Some (bundle', w') \<longrightarrow>
       (\<forall>i < length (calls w'). \<forall>b. calls w' ! i = GCSetBundle b \<longrightarrow>
          0 < i \<and> calls w' ! (i - 1) = SupervisorSet b (Applications b)
          \<and> i + 2 < length (calls w')
          \<and> calls w' ! (i + 1) = UpdaterSetDesiredVersion (DesiredAgentVersion b)
          \<and> calls w' ! (i + 2) = MetricsPusherSetBundle b))"
proof (intro conjI impI)
  assume "fst (runBundleApplier_cycle js io st) = Some c"
  then show "calls (snd (runBundleApplier_cycle js io st)) =
        calls (snd (downloadLatestBundle js io (fst st) (snd st)))
          @ [SupervisorSet c (Applications c), GCSetBundle c,
             UpdaterSetDesiredVersion (DesiredAgentVersion c), MetricsPusherSetBundle c]"
    by (cases "downloadLatestBundle js io (fst st) (snd st)")
       (auto simp: runBundleApplier_cycle_def dispatch_def split: option.splits)
next
  assume "calls w = [] \<and> runBundleApplier js boot ios w = Some (bundle', w')"
  then have "dispatch_in_order (calls w')"
    using runBundleApplier_order by blast
  then show "\<forall>i < length (calls w'). \<forall>b. calls w' ! i = GCSetBundle b \<longrightarrow>
          0 < i \<and> calls w' ! (i - 1) = SupervisorSet b (Applications b)
          \<and> i + 2 < length (calls w')
          \<and> calls w' ! (i + 1) = UpdaterSetDesiredVersion (DesiredAgentVersion b)
          \<and> calls w' ! (i + 2) = MetricsPusherSetBundle b"
    unfolding dispatch_in_order_def .
qed

theorem dispatch_order_fixed_witness:
  "runBundleApplier_cycle fixture_codec
       (fixture_cycle (Inr ''applications A,B; desiredAgentVersion 1.0''))
       (None, \<lparr>files = Map.empty, calls = []\<rparr>)
     = (Some fixture_bundle,
        \<lparr>files = [''bundle'' \<mapsto> ''applications AB; desiredAgentVersion 1.0''],
         calls = [GetBundleBytes 60,
                  WroteFile ''bundle'' ''applications AB; desiredAgentVersion 1.0'',
                  SupervisorSet fixture_bundle [''A'', ''B''], GCSetBundle fixture_bundle,
                  UpdaterSetDesiredVersion ''1.0'', MetricsPusherSetBundle fixture_bundle]\<rparr>)
   \<and> runBundleApplier fixture_codec [no_faults]
       [fixture_cycle (Inr ''applications A,B; desiredAgentVersion 1.0'')]
       \<lparr>files = Map.empty, calls = []\<rparr>
     = Some (Some fixture_bundle,
        \<lparr>files = [''bundle'' \<mapsto> ''applications AB; desiredAgentVersion 1.0''],
         calls = [GetBundleBytes 60,
                  WroteFile ''bundle'' ''applications AB; desiredAgentVersion 1.0'',
                  SupervisorSet fixture_bundle [''A'', ''B''], GCSetBundle fixture_bundle,
                  UpdaterSetDesiredVersion ''1.0'', MetricsPusherSetBundle fixture_bundle]\<rparr>)"
  using dispatch_order_fixed [of fixture_codec
      "fixture_cycle (Inr ''applications A,B; desiredAgentVersion 1.0'')"
      "(None, \<lparr>files = Map.empty, calls = []\<rparr>)" fixture_bundle
      "\<lparr>files = Map.empty, calls = []\<rparr>" "[no_faults]"
      "[fixture_cycle (Inr ''applications A,B; desiredAgentVersion 1.0'')]"
      "Some fixture_bundle"
      "\<lparr>files = [''bundle'' \<mapsto> ''applications AB; desiredAgentVersion 1.0''],
         calls = [GetBundleBytes 60,
                  WroteFile ''bundle'' ''applications AB; desiredAgentVersion 1.0'',
                  SupervisorSet fixture_bundle [''A'', ''B''], GCSetBundle fixture_bundle,
                  UpdaterSetDesiredVersion ''1.0'', MetricsPusherSetBundle fixture_bundle]\<rparr>"]
  by (simp add: runBundleApplier_def os_Stat_def no_faults_def bundleFilename_def
      runBundleApplier_cycle_def downloadLatestBundle_def mergeBundle_def
      fixture_codec_def fixture_cycle_def json_Marshal_def writeFile_def fixture_bundle_def
      file_WriteFileAtomic_def call_def time_Minute_def dispatch_def)

subsection \<open>Registration\<close>

lemma bindListener_calls:
  "\<exists>listens. calls (snd (bindListener port outcomes w)) = calls w @ listens
      \<and> set listens \<subseteq> {Listen port, SetListener port}"
proof (induction outcomes arbitrary: w)
  case Nil
  then show ?case by simp
next
  case (Cons bound rest)
  show ?case
  proof (cases bound)
    case True
    then show ?thesis by (simp add: call_def)
  next
    case False
    from Cons [of "call (Listen port) w"] obtain listens where
      "calls (snd (bindListener port rest (call (Listen port) w))) = calls w @ Listen port # listens"
      "set listens \<subseteq> {Listen port, SetListener port}"
      by (auto simp: call_def)
    with False show ?thesis by auto
  qed
qed

lemma bindListener_files: "files (snd (bindListener port outcomes w)) = files w"
  by (induction outcomes arbitrary: w) (auto simp: call_def)

lemma Initialize_registered:
  assumes "Stat_error io accessKeyFilename = None" and "files w accessKeyFilename = Some accessKey"
  shows "Initialize io a w =
     (case ReadFile_error io accessKeyFilename of
        Some err \<Rightarrow>
          (Some (Some (errors_Wrap err ''failed to read access key'')),
           call (ReadFile accessKeyFilename) w)
      | None \<Rightarrow>
          (case ioutil_ReadFile io (files w) deviceIDFilename of
             Inl err \<Rightarrow>
               (Some (Some (errors_Wrap err ''failed to read device ID'')),
                call (ReadFile deviceIDFilename) (call (ReadFile accessKeyFilename) w))
           | Inr deviceID \<Rightarrow>
               bindListener (serverPort a) (Listen_results io)
                 (call (SetDeviceID deviceID) (call (SetAccessKey accessKey)
                    (call (ReadFile deviceIDFilename) (call (ReadFile accessKeyFilename) w))))))"
  using assms
  by (simp add: Initialize_def os_Stat_def ioutil_ReadFile_def Let_def call_def
      split: option.splits sum.splits)

lemma register_ok:
  assumes "RegisterDevice_response io = Inr response"
    and "\<forall>name. MkdirAll_error io name = None \<and> WriteFileAtomic_error io name = None"
  shows "register io a w =
     (None, \<lparr>files = (files w)(accessKeyFilename \<mapsto> DeviceAccessKeyValue response,
                              deviceIDFilename \<mapsto> DeviceID response),
             calls = calls w @ [RegisterDevice time_Minute (registrationToken a),
                      WroteFile accessKeyFilename (DeviceAccessKeyValue response),
                      WroteFile deviceIDFilename (DeviceID response)]\<rparr>)"
  using assms
  by (simp add: register_def Let_def writeFile_def file_WriteFileAtomic_def call_def)

lemma register_calls:
  "\<exists>rest. calls (snd (register io a w)) =
      calls w @ RegisterDevice time_Minute (registrationToken a) # rest"
  by (auto simp: register_def Let_def writeFile_def file_WriteFileAtomic_def call_def
      split: sum.splits option.splits)


lemma Initialize_unregistered:
  assumes "Stat_error io accessKeyFilename = None" and "files w accessKeyFilename = None"
  shows "\<exists>rest. calls (snd (Initialize io a w)) = calls (snd (register io a w)) @ rest"
proof -
  obtain r w1 where reg: "register io a w = (r, w1)"
    by (cases "register io a w")
  show ?thesis
  proof (cases r)
    case (Some err)
    with assms reg show ?thesis by (simp add: Initialize_def os_Stat_def)
  next
    case None
    show ?thesis
    proof (cases "ioutil_ReadFile io (files w1) accessKeyFilename")
      case (Inl err)
      with None assms reg show ?thesis by (simp add: Initialize_def os_Stat_def call_def)
    next
      case (Inr accessKey)
      show ?thesis
      proof (cases "ioutil_ReadFile io (files w1) deviceIDFilename")
        case (Inl err)
        with Inr None assms reg show ?thesis
          by (simp add: Initialize_def os_Stat_def call_def Let_def)
      next
        case inr2: (Inr deviceID)
        obtain listens where
          "calls (snd (bindListener (serverPort a) (Listen_results io)
              (call (SetDeviceID deviceID) (call (SetAccessKey accessKey)
                 (call (ReadFile deviceIDFilename) (call (ReadFile accessKeyFilename) w1))))))
            = calls (call (SetDeviceID deviceID) (call (SetAccessKey accessKey)
                 (call (ReadFile deviceIDFilename) (call (ReadFile accessKeyFilename) w1))))
                @ listens"
          using bindListener_calls by blast
        with inr2 Inr None assms reg show ?thesis
          by (simp add: Initialize_def os_Stat_def call_def Let_def)
      qed
    qed
  qed
qed

text \<open>
  C7. When the access-key file exists, \<open>Initialize\<close> makes no \<open>RegisterDevice\<close> call and
  writes no file; it reads the access-key and the device-id file and, both read, hands
  exactly their contents to \<open>SetAccessKey\<close> and \<open>SetDeviceID\<close>. When the access-key file
  does not exist, its first call is \<open>RegisterDevice\<close> with the registration token under
  a deadline of one minute; when that succeeds and the files can be written and read, the
  returned access key and device id are written (each by the atomic write) to the two
  files, before they are read back and installed. The calls that follow are those of the
  listener loop.
\<close>

theorem Initialize_loads_or_registers:
  "(Stat_error io accessKeyFilename = None \<and> files w accessKeyFilename = Some accessKey \<longrightarrow>
      (\<forall>deadline token.
          RegisterDevice deadline token
            \<notin> set (drop (length (calls w)) (calls (snd (Initialize io a w)))))
      \<and> files (snd (Initialize io a w)) = files w
      \<and> (files w deviceIDFilename = Some deviceID
           \<and> ReadFile_error io accessKeyFilename = None
           \<and> ReadFile_error io deviceIDFilename = None \<longrightarrow>
          (\<exists>listens.
              calls (snd (Initialize io a w)) =
                calls w @ [ReadFile accessKeyFilename, ReadFile deviceIDFilename,
                           SetAccessKey accessKey, SetDeviceID deviceID] @ listens
              \<and> set listens \<subseteq> {Listen (serverPort a), SetListener (serverPort a)})))
   \<and> (Stat_error io accessKeyFilename = None \<and> files w accessKeyFilename = None \<longrightarrow>
      (\<exists>rest. calls (snd (Initialize io a w)) =
          calls w @ RegisterDevice time_Minute (registrationToken a) # rest)
      \<and> (RegisterDevice_response io = Inr response
           \<and> (\<forall>name. MkdirAll_error io name = None \<and> WriteFileAtomic_error io name = None
                 \<and> ReadFile_error io name = None) \<longrightarrow>
          files (snd (Initialize io a w)) =
            (files w)(accessKeyFilename \<mapsto> DeviceAccessKeyValue response,
                      deviceIDFilename \<mapsto> DeviceID response)
          \<and> (\<exists>listens.
              calls (snd (Initialize io a w)) =
                calls w @ [RegisterDevice time_Minute (registrationToken a),
                           WroteFile accessKeyFilename (DeviceAccessKeyValue response),
                           WroteFile deviceIDFilename (DeviceID response),
                           ReadFile accessKeyFilename, ReadFile deviceIDFilename,
                           SetAccessKey (DeviceAccessKeyValue response),
                           SetDeviceID (DeviceID response)] @ listens
              \<and> set listens \<subseteq> {Listen (serverPort a), SetListener (serverPort a)})))"
proof (intro conjI impI)
  assume pre: "Stat_error io accessKeyFilename = None \<and> files w accessKeyFilename = Some accessKey"
  have init: "Initialize io a w =
     (case ReadFile_error io accessKeyFilename of
        Some err \<Rightarrow>
          (Some (Some (errors_Wrap err ''failed to read access key'')),
           call (ReadFile accessKeyFilename) w)
      | None \<Rightarrow>
          (case ioutil_ReadFile io (files w) deviceIDFilename of
             Inl err \<Rightarrow>
               (Some (Some (errors_Wrap err ''failed to read device ID'')),
                call (ReadFile deviceIDFilename) (call (ReadFile accessKeyFilename) w))
           | Inr deviceID \<Rightarrow>
               bindListener (serverPort a) (Listen_results io)
                 (call (SetDeviceID deviceID) (call (SetAccessKey accessKey)
                    (call (ReadFile deviceIDFilename) (call (ReadFile accessKeyFilename) w))))))"
    using pre by (intro Initialize_registered) simp_all
  show "\<forall>deadline token.
          RegisterDevice deadline token
            \<notin> set (drop (length (calls w)) (calls (snd (Initialize io a w))))"
  proof (intro allI)
    fix deadline token
    show "RegisterDevice deadline token
            \<notin> set (drop (length (calls w)) (calls (snd (Initialize io a w))))"
    proof (cases "ReadFile_error io accessKeyFilename")
      case (Some err)
      then show ?thesis by (simp add: init call_def)
    next
      case None
      show ?thesis
      proof (cases "ioutil_ReadFile io (files w) deviceIDFilename")
        case (Inl err)
        with None show ?thesis by (simp add: init call_def)
      next
        case (Inr d)
        obtain listens where
          "calls (snd (Initialize io a w)) =
             calls w @ [ReadFile accessKeyFilename, ReadFile deviceIDFilename,
                        SetAccessKey accessKey, SetDeviceID d] @ listens"
          "set listens \<subseteq> {Listen (serverPort a), SetListener (serverPort a)}"
          using bindListener_calls [of "serverPort a" "Listen_results io"
              "call (SetDeviceID d) (call (SetAccessKey accessKey)
                    (call (ReadFile deviceIDFilename) (call (ReadFile accessKeyFilename) w)))"]
            None Inr
          by (auto simp: init call_def)
        then show ?thesis by auto
      qed
    qed
  qed
  show "files (snd (Initialize io a w)) = files w"
    by (simp add: init bindListener_files call_def split: option.splits sum.splits)
  show "\<exists>listens.
              calls (snd (Initialize io a w)) =
                calls w @ [ReadFile accessKeyFilename, ReadFile deviceIDFilename,
                           SetAccessKey accessKey, SetDeviceID deviceID] @ listens
              \<and> set listens \<subseteq> {Listen (serverPort a), SetListener (serverPort a)}"
    if "files w deviceIDFilename = Some deviceID
           \<and> ReadFile_error io accessKeyFilename = None
           \<and> ReadFile_error io deviceIDFilename = None"
    using bindListener_calls [of "serverPort a" "Listen_results io"
              "call (SetDeviceID deviceID) (call (SetAccessKey accessKey)
                    (call (ReadFile deviceIDFilename) (call (ReadFile accessKeyFilename) w)))"]
      that
    by (auto simp: init call_def ioutil_ReadFile_def)
next
  assume pre: "Stat_error io accessKeyFilename = None \<and> files w accessKeyFilename = None"
  show "\<exists>rest. calls (snd (Initialize io a w)) =
          calls w @ RegisterDevice time_Minute (registrationToken a) # rest"
    using Initialize_unregistered [of io w a] register_calls [of io a w] pre by auto
  have both: "files (snd (Initialize io a w)) =
            (files w)(accessKeyFilename \<mapsto> DeviceAccessKeyValue response,
                      deviceIDFilename \<mapsto> DeviceID response)
          \<and> (\<exists>listens.
              calls (snd (Initialize io a w)) =
                calls w @ [RegisterDevice time_Minute (registrationToken a),
                           WroteFile accessKeyFilename (DeviceAccessKeyValue response),
                           WroteFile deviceIDFilename (DeviceID response),
                           ReadFile accessKeyFilename, ReadFile deviceIDFilename,
                           SetAccessKey (DeviceAccessKeyValue response),
                           SetDeviceID (DeviceID response)] @ listens
              \<and> set listens \<subseteq> {Listen (serverPort a), SetListener (serverPort a)})"
    if ok: "RegisterDevice_response io = Inr response
           \<and> (\<forall>name. MkdirAll_error io name = None \<and> WriteFileAtomic_error io name = None
                 \<and> ReadFile_error io name = None)"
  proof -
    have reg: "register io a w =
     (None, \<lparr>files = (files w)(accessKeyFilename \<mapsto> DeviceAccessKeyValue response,
                              deviceIDFilename \<mapsto> DeviceID response),
             calls = calls w @ [RegisterDevice time_Minute (registrationToken a),
                      WroteFile accessKeyFilename (DeviceAccessKeyValue response),
                      WroteFile deviceIDFilename (DeviceID response)]\<rparr>)"
      using ok by (intro register_ok) simp_all
    have names: "accessKeyFilename \<noteq> deviceIDFilename"
      by (simp add: accessKeyFilename_def deviceIDFilename_def)
    have init: "Initialize io a w =
        bindListener (serverPort a) (Listen_results io)
          \<lparr>files = (files w)(accessKeyFilename \<mapsto> DeviceAccessKeyValue response,
                              deviceIDFilename \<mapsto> DeviceID response),
           calls = calls w @ [RegisterDevice time_Minute (registrationToken a),
                      WroteFile accessKeyFilename (DeviceAccessKeyValue response),
                      WroteFile deviceIDFilename (DeviceID response),
                      ReadFile accessKeyFilename, ReadFile deviceIDFilename,
                      SetAccessKey (DeviceAccessKeyValue response),
                      SetDeviceID (DeviceID response)]\<rparr>"
      using pre ok names
      by (simp add: Initialize_def os_Stat_def reg ioutil_ReadFile_def call_def Let_def)
    show ?thesis
      using bindListener_calls [of "serverPort a" "Listen_results io"
          "\<lparr>files = (files w)(accessKeyFilename \<mapsto> DeviceAccessKeyValue response,
                              deviceIDFilename \<mapsto> DeviceID response),
           calls = calls w @ [RegisterDevice time_Minute (registrationToken a),
                      WroteFile accessKeyFilename (DeviceAccessKeyValue response),
                      WroteFile deviceIDFilename (DeviceID response),
                      ReadFile accessKeyFilename, ReadFile deviceIDFilename,
                      SetAccessKey (DeviceAccessKeyValue response),
                      SetDeviceID (DeviceID response)]\<rparr>"]
      by (simp add: init bindListener_files)
  qed
  show "files (snd (Initialize io a w)) =
            (files w)(accessKeyFilename \<mapsto> DeviceAccessKeyValue response,
                      deviceIDFilename \<mapsto> DeviceID response)"
    if "RegisterDevice_response io = Inr response
           \<and> (\<forall>name. MkdirAll_error io name = None \<and> WriteFileAtomic_error io name = None
                 \<and> ReadFile_error io name = None)"
    using both [OF that] by blast
  show "\<exists>listens.
              calls (snd (Initialize io a w)) =
                calls w @ [RegisterDevice time_Minute (registrationToken a),
                           WroteFile accessKeyFilename (DeviceAccessKeyValue response),
                           WroteFile deviceIDFilename (DeviceID response),
                           ReadFile accessKeyFilename, ReadFile deviceIDFilename,
                           SetAccessKey (DeviceAccessKeyValue response),
                           SetDeviceID (DeviceID response)] @ listens
              \<and> set listens \<subseteq> {Listen (serverPort a), SetListener (serverPort a)}"
    if "RegisterDevice_response io = Inr response
           \<and> (\<forall>name. MkdirAll_error io name = None \<and> WriteFileAtomic_error io name = None
                 \<and> ReadFile_error io name = None)"
    using both [OF that] by blast
qed

theorem Initialize_loads_or_registers_witness:
  "Initialize (fixture_init (Inl ''control plane unreachable'') [False, True]) fixture_agent
      \<lparr>files = [''access-key'' \<mapsto> ''k0'', ''device-id'' \<mapsto> ''d0''], calls = []\<rparr>
     = (Some None,
        \<lparr>files = [''access-key'' \<mapsto> ''k0'', ''device-id'' \<mapsto> ''d0''],
         calls = [ReadFile ''access-key'', ReadFile ''device-id'', SetAccessKey ''k0'',
                  SetDeviceID ''d0'', Listen 4444, Listen 4444, SetListener 4444]\<rparr>)
   \<and> Initialize
      (fixture_init (Inr \<lparr>DeviceID = ''d1'', DeviceAccessKeyValue = ''k1''\<rparr>) [True])
      fixture_agent \<lparr>files = Map.empty, calls = []\<rparr>
     = (Some None,
        \<lparr>files = [''access-key'' \<mapsto> ''k1'', ''device-id'' \<mapsto> ''d1''],
         calls = [RegisterDevice 60 ''TKN'', WroteFile ''access-key'' ''k1'',
                  WroteFile ''device-id'' ''d1'', ReadFile ''access-key'',
                  ReadFile ''device-id'', SetAccessKey ''k1'', SetDeviceID ''d1'',
                  Listen 4444, SetListener 4444]\<rparr>)"
  using
    Initialize_loads_or_registers [of
      "fixture_init (Inl ''control plane unreachable'') [False, True]"
      "\<lparr>files = [''access-key'' \<mapsto> ''k0'', ''device-id'' \<mapsto> ''d0''], calls = []\<rparr>"
      "''k0''" fixture_agent "''d0''" "\<lparr>DeviceID = ''d1'', DeviceAccessKeyValue = ''k1''\<rparr>"]
    Initialize_loads_or_registers [of
      "fixture_init (Inr \<lparr>DeviceID = ''d1'', DeviceAccessKeyValue = ''k1''\<rparr>) [True]"
      "\<lparr>files = Map.empty, calls = []\<rparr>"
      "''k0''" fixture_agent "''d0''" "\<lparr>DeviceID = ''d1'', DeviceAccessKeyValue = ''k1''\<rparr>"]
  by (simp add: Initialize_def os_Stat_def register_def writeFile_def file_WriteFileAtomic_def
      ioutil_ReadFile_def call_def fixture_init_def fixture_agent_def accessKeyFilename_def
      deviceIDFilename_def time_Minute_def Let_def)

subsection \<open>The reporter: ranges over maps and the gate\<close>

lemma servicesAtRelease_iff:
  "servicesAtRelease names statuses release \<longleftrightarrow>
     (\<forall>name \<in> set names. \<exists>status. statuses name = Some status
         \<and> CurrentReleaseID status = release)"
  by (induction names) (auto split: option.splits)

lemma set_range_set: "visits order s \<Longrightarrow> set (range_set order s) = s"
  by (auto simp: visits_def range_set_def)

lemma map_of_range_map:
  "distinct order \<Longrightarrow> map_of (range_map order m) k = (if k \<in> set order then m k else None)"
proof (induction order)
  case Nil
  then show ?case by (simp add: range_map_def map_filter_simps)
next
  case (Cons a order)
  then show ?case
    by (cases "m a") (auto simp: range_map_def map_filter_simps)
qed

lemma range_map_keys: "map fst (range_map order m) = filter (\<lambda>k. m k \<noteq> None) order"
  by (induction order) (auto simp: range_map_def map_filter_simps split: option.splits)

lemma distinct_range_map: "distinct order \<Longrightarrow> distinct (map fst (range_map order m))"
  by (simp add: range_map_keys)

lemma range_map_visits:
  assumes "visits order (dom m)"
  shows "map_of (range_map order m) = m" and "distinct (map fst (range_map order m))"
proof -
  show "map_of (range_map order m) = m"
  proof
    fix k
    show "map_of (range_map order m) k = m k"
      using assms by (cases "m k") (auto simp: map_of_range_map visits_def)
  qed
  show "distinct (map fst (range_map order m))"
    using assms by (simp add: distinct_range_map visits_def)
qed

lemma set_range_map:
  assumes "visits order (dom m)"
  shows "set (range_map order m) = {(k, v). m k = Some v}"
proof -
  have "(k, v) \<in> set (range_map order m) \<longleftrightarrow> m k = Some v" for k v
    using range_map_visits [OF assms] by (metis map_of_eq_Some_iff)
  then show ?thesis by auto
qed

lemma visits_mono: "visits order s \<Longrightarrow> s' \<subseteq> s \<Longrightarrow> visits order s'"
  by (auto simp: visits_def)

text \<open>
  What one iteration of the application-status loop does, by the state it starts in:
  the gate is open when the desired release is not the reported one and every desired
  service is present in \<open>serviceStatuses\<close> with that release.
\<close>

lemma applicationStatusReporter_tick_cases:
  assumes "visits order (desiredApplicationServiceNames r)"
  shows "applicationStatusReporter_tick order reported r =
     (if desiredApplicationRelease r \<noteq> reportedApplicationRelease r
         \<and> (\<forall>name \<in> desiredApplicationServiceNames r.
               \<exists>status. serviceStatuses r name = Some status
                 \<and> CurrentReleaseID status = desiredApplicationRelease r)
      then (case reported of
              Some err \<Rightarrow> r
            | None \<Rightarrow> r\<lparr>reportedApplicationRelease := desiredApplicationRelease r\<rparr>,
            [ReportApplicationStatus (applicationID r) (desiredApplicationRelease r) reported])
      else (r, []))"
  using set_range_set [OF assms]
  by (auto simp: applicationStatusReporter_tick_def Let_def servicesAtRelease_iff
      split: option.splits)

text \<open>
  C1. In every state (so in every state that an execution of the loop reaches), and
  whatever the order in which the desired names are visited: a call of
  \<open>reportApplicationStatus\<close> with release \<open>R\<close> is made only when the gate held at the check
  of that iteration, that is, \<open>R\<close> is the desired release, differs from
  \<open>reportedApplicationRelease\<close>, and every name of \<open>desiredApplicationServiceNames\<close> has
  an entry in \<open>serviceStatuses\<close> whose \<open>CurrentReleaseID\<close> is \<open>R\<close>; when the gate fails, the
  iteration publishes nothing and changes nothing; when it holds, exactly one call is
  made.
\<close>

theorem applicationStatusReporter_gate:
  assumes "visits order (desiredApplicationServiceNames r)"
  shows "(\<forall>app release err.
            ReportApplicationStatus app release err
              \<in> set (snd (applicationStatusReporter_tick order reported r)) \<longrightarrow>
            app = applicationID r \<and> release = desiredApplicationRelease r
            \<and> release \<noteq> reportedApplicationRelease r
            \<and> (\<forall>name \<in> desiredApplicationServiceNames r.
                  \<exists>status. serviceStatuses r name = Some status
                    \<and> CurrentReleaseID status = release))
       \<and> (\<not> (desiredApplicationRelease r \<noteq> reportedApplicationRelease r
              \<and> (\<forall>name \<in> desiredApplicationServiceNames r.
                    \<exists>status. serviceStatuses r name = Some status
                      \<and> CurrentReleaseID status = desiredApplicationRelease r)) \<longrightarrow>
           applicationStatusReporter_tick order reported r = (r, []))
       \<and> (desiredApplicationRelease r \<noteq> reportedApplicationRelease r
              \<and> (\<forall>name \<in> desiredApplicationServiceNames r.
                    \<exists>status. serviceStatuses r name = Some status
                      \<and> CurrentReleaseID status = desiredApplicationRelease r) \<longrightarrow>
           snd (applicationStatusReporter_tick order reported r) =
             [ReportApplicationStatus (applicationID r) (desiredApplicationRelease r) reported])"
  unfolding applicationStatusReporter_tick_cases [OF assms]
  by auto

lemmas reporter_eval =
  fixture_reporter_def NewReporter_def SetDesiredApplication_def SetServiceStatus_def
  SetServiceState_def applicationStatusReporter_tick_def serviceStatusReporter_tick_def
  serviceStateReporter_tick_def range_map_def range_set_def visits_def
  statusDiffers_def stateDiffers_def Let_def

theorem applicationStatusReporter_gate_witness:
  "snd (applicationStatusReporter_tick [''db'', ''api''] None fixture_reporter)
     = [ReportApplicationStatus ''A'' ''R1'' None]
   \<and> reportedApplicationRelease
        (fst (applicationStatusReporter_tick [''db'', ''api''] None fixture_reporter)) = ''R1''
   \<and> applicationStatusReporter_tick [''db'', ''api''] None
        (SetServiceStatus ''db'' \<lparr>CurrentReleaseID = ''R0''\<rparr> fixture_reporter)
     = (SetServiceStatus ''db'' \<lparr>CurrentReleaseID = ''R0''\<rparr> fixture_reporter, [])"
  using
    applicationStatusReporter_gate [of "[''db'', ''api'']" fixture_reporter None]
    applicationStatusReporter_gate [of "[''db'', ''api'']"
      "SetServiceStatus ''db'' \<lparr>CurrentReleaseID = ''R0''\<rparr> fixture_reporter" None]
  by (simp add: reporter_eval)

subsection \<open>The reporter: the sweeps of the service-status and service-state loops\<close>

lemma diffAndCopy_eq:
  "distinct (map fst entries) \<Longrightarrow>
   diffAndCopy differs reported entries (d0, c0) =
     ((\<lambda>k. case map_of entries k of
              None \<Rightarrow> d0 k
            | Some v \<Rightarrow>
                (case reported k of
                   None \<Rightarrow> Some v
                 | Some rv \<Rightarrow> if differs rv v then Some v else d0 k)),
      (\<lambda>k. case map_of entries k of None \<Rightarrow> c0 k | Some v \<Rightarrow> Some v))"
proof (induction entries arbitrary: d0 c0)
  case Nil
  then show ?case by simp
next
  case (Cons entry rest)
  obtain s cur where entry: "entry = (s, cur)" by (cases entry)
  from Cons.prems entry have fresh: "map_of rest s = None" and rest: "distinct (map fst rest)"
    by (auto simp: map_of_eq_None_iff)
  define d1 where "d1 =
    (case reported s of
       None \<Rightarrow> d0(s \<mapsto> cur)
     | Some rv \<Rightarrow> if differs rv cur then d0(s \<mapsto> cur) else d0)"
  have step: "diffAndCopy differs reported (entry # rest) (d0, c0) =
      diffAndCopy differs reported rest (d1, c0(s \<mapsto> cur))"
    by (simp add: entry d1_def)
  have d: "(case map_of rest k of
              None \<Rightarrow> d1 k
            | Some v \<Rightarrow>
                (case reported k of
                   None \<Rightarrow> Some v
                 | Some rv \<Rightarrow> if differs rv v then Some v else d1 k))
         = (case map_of (entry # rest) k of
              None \<Rightarrow> d0 k
            | Some v \<Rightarrow>
                (case reported k of
                   None \<Rightarrow> Some v
                 | Some rv \<Rightarrow> if differs rv v then Some v else d0 k))" for k
  proof (cases "k = s")
    case True
    then show ?thesis
      using fresh by (cases "reported s") (simp_all add: entry d1_def)
  next
    case False
    then have "d1 k = d0 k"
      by (cases "reported s") (simp_all add: d1_def)
    with False show ?thesis by (simp add: entry split: option.splits)
  qed
  have c: "(case map_of rest k of None \<Rightarrow> (c0(s \<mapsto> cur)) k | Some v \<Rightarrow> Some v)
         = (case map_of (entry # rest) k of None \<Rightarrow> c0 k | Some v \<Rightarrow> Some v)" for k
    using fresh by (cases "k = s") (simp_all add: entry split: option.splits)
  show ?case
    unfolding step Cons.IH [OF rest] d c ..
qed

lemma diffAndCopy_range:
  assumes "visits order (dom m)"
  shows "diffAndCopy differs reported (range_map order m) (Map.empty, Map.empty) =
     ((\<lambda>k. case m k of
              None \<Rightarrow> None
            | Some v \<Rightarrow>
                (case reported k of
                   None \<Rightarrow> Some v
                 | Some rv \<Rightarrow> if differs rv v then Some v else None)),
      m)"
proof -
  have "(\<lambda>k. case m k of None \<Rightarrow> None | Some v \<Rightarrow> Some v) = m"
    by (auto split: option.splits)
  then show ?thesis
    using range_map_visits [OF assms]
    by (simp add: diffAndCopy_eq)
qed

lemma publishDiff_made:
  "(n, v, e) \<in> set (fst (publishDiff report entries)) \<Longrightarrow>
     (n, v) \<in> set entries \<and> e = report n v"
proof (induction entries)
  case Nil
  then show ?case by simp
next
  case (Cons entry rest)
  obtain s cur where entry: "entry = (s, cur)" by (cases entry)
  obtain made fin where rest: "publishDiff report rest = (made, fin)"
    by (cases "publishDiff report rest")
  show ?case
  proof (cases "report s cur")
    case None
    with Cons entry rest show ?thesis by auto
  next
    case (Some err)
    with Cons.prems entry show ?thesis by auto
  qed
qed

lemma publishDiff_finished:
  "snd (publishDiff report entries) \<longleftrightarrow>
     (\<forall>made \<in> set (fst (publishDiff report entries)). snd (snd made) = None)"
proof (induction entries)
  case Nil
  then show ?case by simp
next
  case (Cons entry rest)
  obtain s cur where entry: "entry = (s, cur)" by (cases entry)
  obtain made fin where rest: "publishDiff report rest = (made, fin)"
    by (cases "publishDiff report rest")
  show ?case
  proof (cases "report s cur")
    case None
    with Cons entry rest show ?thesis by simp
  next
    case (Some err)
    with entry show ?thesis by simp
  qed
qed

lemma publishDiff_all_ok:
  "(\<forall>entry \<in> set entries. report (fst entry) (snd entry) = None) \<Longrightarrow>
     publishDiff report entries = (map (\<lambda>entry. (fst entry, snd entry, None)) entries, True)"
proof (induction entries)
  case Nil
  then show ?case by simp
next
  case (Cons entry rest)
  obtain s cur where entry: "entry = (s, cur)" by (cases entry)
  with Cons show ?case by simp
qed

lemma publishDiff_error_iff:
  "\<not> snd (publishDiff report entries) \<longleftrightarrow>
     (\<exists>n v err. (n, v, Some err) \<in> set (fst (publishDiff report entries)))"
proof -
  have "(\<exists>made \<in> set (fst (publishDiff report entries)). snd (snd made) \<noteq> None) \<longleftrightarrow>
     (\<exists>n v err. (n, v, Some err) \<in> set (fst (publishDiff report entries)))"
    by (metis not_None_eq prod.collapse snd_conv)
  then show ?thesis
    unfolding publishDiff_finished [of report entries] by simp
qed

lemma serviceStatusReporter_tick_eq:
  assumes "visits order (dom (serviceStatuses r))"
    and "diff = (\<lambda>name. case serviceStatuses r name of
              None \<Rightarrow> None
            | Some status \<Rightarrow>
                (case reportedServiceStatuses r name of
                   None \<Rightarrow> Some status
                 | Some reportedStatus \<Rightarrow>
                     if statusDiffers reportedStatus status then Some status else None))"
  shows "serviceStatusReporter_tick order order' report r =
     (if snd (publishDiff report (range_map order' diff))
      then r\<lparr>reportedServiceStatuses := serviceStatuses r\<rparr> else r,
      map (\<lambda>made. ReportServiceStatus (applicationID r) (fst made) (fst (snd made))
                    (snd (snd made)))
        (fst (publishDiff report (range_map order' diff))))"
  unfolding serviceStatusReporter_tick_def diffAndCopy_range [OF assms(1)] assms(2)
  by (simp add: case_prod_beta)

lemma serviceStateReporter_tick_eq:
  assumes "visits order (dom (serviceStates r))"
    and "diff = (\<lambda>name. case serviceStates r name of
              None \<Rightarrow> None
            | Some state \<Rightarrow>
                (case reportedServiceStates r name of
                   None \<Rightarrow> Some state
                 | Some reportedState \<Rightarrow>
                     if stateDiffers reportedState state then Some state else None))"
  shows "serviceStateReporter_tick order order' report r =
     (if snd (publishDiff report (range_map order' diff))
      then r\<lparr>reportedServiceStates := serviceStates r\<rparr> else r,
      map (\<lambda>made. ReportServiceState (applicationID r) (fst made) (fst (snd made))
                    (snd (snd made)))
        (fst (publishDiff report (range_map order' diff))))"
  unfolding serviceStateReporter_tick_def diffAndCopy_range [OF assms(1)] assms(2)
  by (simp add: case_prod_beta)

text \<open>
  C6. On each sweep of the service-status reporter, under the read lock, \<open>copy\<close> is the
  whole of \<open>serviceStatuses\<close> and \<open>diff\<close> holds exactly the services of \<open>serviceStatuses\<close>
  that have no entry in \<open>reportedServiceStatuses\<close> or whose reported \<open>CurrentReleaseID\<close>
  differs from the current one, each with its current status. The second loop ranges
  over exactly the entries of \<open>diff\<close>, each once: every call of \<open>reportServiceStatus\<close>
  carries an entry of \<open>diff\<close>, and when no call returns an error every entry is
  published, in the order of the range.
\<close>

theorem serviceStatusReporter_diff:
  assumes "visits order (dom (serviceStatuses r))" and "visits order' (dom (serviceStatuses r))"
  shows "\<exists>diff.
      diffAndCopy statusDiffers (reportedServiceStatuses r)
          (range_map order (serviceStatuses r)) (Map.empty, Map.empty)
        = (diff, serviceStatuses r)
    \<and> (\<forall>name status. diff name = Some status \<longleftrightarrow>
          serviceStatuses r name = Some status
          \<and> (reportedServiceStatuses r name = None
              \<or> (\<exists>reportedStatus. reportedServiceStatuses r name = Some reportedStatus
                    \<and> CurrentReleaseID reportedStatus \<noteq> CurrentReleaseID status)))
    \<and> set (range_map order' diff) = {(name, status). diff name = Some status}
    \<and> distinct (map fst (range_map order' diff))
    \<and> (\<forall>e \<in> set (snd (serviceStatusReporter_tick order order' report r)).
          \<exists>name status. diff name = Some status
            \<and> e = ReportServiceStatus (applicationID r) name status (report name status))
    \<and> ((\<forall>name status. diff name = Some status \<longrightarrow> report name status = None) \<longrightarrow>
          snd (serviceStatusReporter_tick order order' report r) =
            map (\<lambda>entry. ReportServiceStatus (applicationID r) (fst entry) (snd entry) None)
              (range_map order' diff))"
proof -
  define diff where "diff = (\<lambda>name. case serviceStatuses r name of
              None \<Rightarrow> None
            | Some status \<Rightarrow>
                (case reportedServiceStatuses r name of
                   None \<Rightarrow> Some status
                 | Some reportedStatus \<Rightarrow>
                     if statusDiffers reportedStatus status then Some status else None))"
  have loop: "diffAndCopy statusDiffers (reportedServiceStatuses r)
          (range_map order (serviceStatuses r)) (Map.empty, Map.empty)
        = (diff, serviceStatuses r)"
    unfolding diff_def by (rule diffAndCopy_range [OF assms(1)])
  have members: "diff name = Some status \<longleftrightarrow>
          serviceStatuses r name = Some status
          \<and> (reportedServiceStatuses r name = None
              \<or> (\<exists>reportedStatus. reportedServiceStatuses r name = Some reportedStatus
                    \<and> CurrentReleaseID reportedStatus \<noteq> CurrentReleaseID status))"
    for name status
    by (cases "serviceStatuses r name"; cases "reportedServiceStatuses r name")
       (auto simp: diff_def statusDiffers_def)
  have "dom diff \<subseteq> dom (serviceStatuses r)"
    using members by (auto simp: dom_def)
  with assms(2) have visits: "visits order' (dom diff)"
    by (rule visits_mono)
  note entries = set_range_map [OF visits] range_map_visits(2) [OF visits]
  note tick = serviceStatusReporter_tick_eq [OF assms(1) diff_def, of order' report]
  have made: "\<exists>name status. diff name = Some status
            \<and> e = ReportServiceStatus (applicationID r) name status (report name status)"
    if "e \<in> set (snd (serviceStatusReporter_tick order order' report r))" for e
  proof -
    from that obtain n v err where
      e: "e = ReportServiceStatus (applicationID r) n v err"
      and "(n, v, err) \<in> set (fst (publishDiff report (range_map order' diff)))"
      unfolding tick by (auto simp: image_iff)
    then have "(n, v) \<in> set (range_map order' diff)" "err = report n v"
      using publishDiff_made [of n v err report "range_map order' diff"] by simp_all
    with e entries(1) show ?thesis by auto
  qed
  have all_ok: "snd (serviceStatusReporter_tick order order' report r) =
            map (\<lambda>entry. ReportServiceStatus (applicationID r) (fst entry) (snd entry) None)
              (range_map order' diff)"
    if "\<forall>name status. diff name = Some status \<longrightarrow> report name status = None"
  proof -
    from that entries(1) have
      "\<forall>entry \<in> set (range_map order' diff). report (fst entry) (snd entry) = None"
      by auto
    from publishDiff_all_ok [OF this] show ?thesis
      unfolding tick by (simp add: comp_def)
  qed
  from loop members entries made all_ok show ?thesis
    by blast
qed

theorem serviceStatusReporter_diff_witness:
  "snd (serviceStatusReporter_tick [''api'', ''db'', ''cache''] [''cache'', ''db'', ''api'']
          (\<lambda>serviceName status. None)
          ((SetServiceStatus ''cache'' \<lparr>CurrentReleaseID = ''R1''\<rparr> fixture_reporter)
             \<lparr>reportedServiceStatuses :=
                [''api'' \<mapsto> \<lparr>CurrentReleaseID = ''R1''\<rparr>, ''db'' \<mapsto> \<lparr>CurrentReleaseID = ''R0''\<rparr>]\<rparr>))
     = [ReportServiceStatus ''A'' ''cache'' \<lparr>CurrentReleaseID = ''R1''\<rparr> None,
        ReportServiceStatus ''A'' ''db'' \<lparr>CurrentReleaseID = ''R1''\<rparr> None]
   \<and> reportedServiceStatuses
        (fst (serviceStatusReporter_tick [''api'', ''db'', ''cache''] [''cache'', ''db'', ''api'']
          (\<lambda>serviceName status. None)
          ((SetServiceStatus ''cache'' \<lparr>CurrentReleaseID = ''R1''\<rparr> fixture_reporter)
             \<lparr>reportedServiceStatuses :=
                [''api'' \<mapsto> \<lparr>CurrentReleaseID = ''R1''\<rparr>, ''db'' \<mapsto> \<lparr>CurrentReleaseID = ''R0''\<rparr>]\<rparr>)))
        ''cache''
     = Some \<lparr>CurrentReleaseID = ''R1''\<rparr>"
  using serviceStatusReporter_diff [of "[''api'', ''db'', ''cache'']"
      "(SetServiceStatus ''cache'' \<lparr>CurrentReleaseID = ''R1''\<rparr> fixture_reporter)
             \<lparr>reportedServiceStatuses :=
                [''api'' \<mapsto> \<lparr>CurrentReleaseID = ''R1''\<rparr>, ''db'' \<mapsto> \<lparr>CurrentReleaseID = ''R0''\<rparr>]\<rparr>"
      "[''cache'', ''db'', ''api'']" "\<lambda>serviceName status. None"]
  by (simp add: reporter_eval)

text \<open>
  Against C3 as it is written, which says that the snapshot is committed at the end of
  every sweep, also of a sweep in
  which a call returned an error, so that services later in the order are marked as
  reported without having been published. The code does not: the \<open>goto cont\<close> jumps over
  the assignment. Here the publication of \<open>api\<close> fails, and \<open>db\<close>, which is current at
  release \<open>R1\<close> and comes later in the order, is not marked as reported.
\<close>

theorem commit_on_failed_sweep_counterexample:
  "snd (serviceStatusReporter_tick [''api'', ''db''] [''api'', ''db'']
          (\<lambda>serviceName status. if serviceName = ''api'' then Some ''context deadline exceeded''
                                 else None)
          fixture_reporter)
     = [ReportServiceStatus ''A'' ''api'' \<lparr>CurrentReleaseID = ''R1''\<rparr>
          (Some ''context deadline exceeded'')]
   \<and> serviceStatuses fixture_reporter ''db'' = Some \<lparr>CurrentReleaseID = ''R1''\<rparr>
   \<and> reportedServiceStatuses
        (fst (serviceStatusReporter_tick [''api'', ''db''] [''api'', ''db'']
          (\<lambda>serviceName status. if serviceName = ''api'' then Some ''context deadline exceeded''
                                 else None)
          fixture_reporter)) ''db'' = None"
  by (simp add: reporter_eval)

text \<open>
  C3, as amended. In the service-status and the service-state reporter loops the commit
  of the snapshot (\<open>reportedServiceStatuses = copy\<close>, \<open>reportedServiceStates = copy\<close>) is
  performed at the end of exactly the sweeps in which no call returned an error, and
  then the snapshot is the whole current map. A sweep in which a call returned an error
  escapes by \<open>goto cont\<close> past the commit and leaves the reporter as it was: no service is
  marked as reported by it, neither the later ones nor those that it had published.
\<close>

theorem commit_skipped_on_error:
  assumes "visits order (dom (serviceStatuses r))"
    and "visits ordr (dom (serviceStates r))"
  shows
    "((\<exists>name status err. ReportServiceStatus (applicationID r) name status (Some err)
            \<in> set (snd (serviceStatusReporter_tick order order' report r))) \<longrightarrow>
        fst (serviceStatusReporter_tick order order' report r) = r)
   \<and> (\<not> (\<exists>name status err. ReportServiceStatus (applicationID r) name status (Some err)
            \<in> set (snd (serviceStatusReporter_tick order order' report r))) \<longrightarrow>
        fst (serviceStatusReporter_tick order order' report r)
          = r\<lparr>reportedServiceStatuses := serviceStatuses r\<rparr>)
   \<and> ((\<exists>name state err. ReportServiceState (applicationID r) name state (Some err)
            \<in> set (snd (serviceStateReporter_tick ordr ordr' report' r))) \<longrightarrow>
        fst (serviceStateReporter_tick ordr ordr' report' r) = r)
   \<and> (\<not> (\<exists>name state err. ReportServiceState (applicationID r) name state (Some err)
            \<in> set (snd (serviceStateReporter_tick ordr ordr' report' r))) \<longrightarrow>
        fst (serviceStateReporter_tick ordr ordr' report' r)
          = r\<lparr>reportedServiceStates := serviceStates r\<rparr>)"
proof -
  define diff where "diff = (\<lambda>name. case serviceStatuses r name of
              None \<Rightarrow> None
            | Some status \<Rightarrow>
                (case reportedServiceStatuses r name of
                   None \<Rightarrow> Some status
                 | Some reportedStatus \<Rightarrow>
                     if statusDiffers reportedStatus status then Some status else None))"
  define diff' where "diff' = (\<lambda>name. case serviceStates r name of
              None \<Rightarrow> None
            | Some state \<Rightarrow>
                (case reportedServiceStates r name of
                   None \<Rightarrow> Some state
                 | Some reportedState \<Rightarrow>
                     if stateDiffers reportedState state then Some state else None))"
  note status = serviceStatusReporter_tick_eq [OF assms(1) diff_def, of order' report]
  note state = serviceStateReporter_tick_eq [OF assms(2) diff'_def, of ordr' report']
  have a: "(\<exists>name status err. ReportServiceStatus (applicationID r) name status (Some err)
            \<in> set (snd (serviceStatusReporter_tick order order' report r)))
        \<longleftrightarrow> \<not> snd (publishDiff report (range_map order' diff))"
    unfolding status publishDiff_error_iff by (force simp: image_iff)
  have b: "(\<exists>name state err. ReportServiceState (applicationID r) name state (Some err)
            \<in> set (snd (serviceStateReporter_tick ordr ordr' report' r)))
        \<longleftrightarrow> \<not> snd (publishDiff report' (range_map ordr' diff'))"
    unfolding state publishDiff_error_iff by (force simp: image_iff)
  show ?thesis
    unfolding a b by (simp add: status state)
qed

theorem commit_skipped_on_error_witness:
  "fst (serviceStatusReporter_tick [''api'', ''db''] [''api'', ''db'']
          (\<lambda>serviceName status. if serviceName = ''db'' then Some ''connection reset'' else None)
          fixture_reporter) = fixture_reporter
   \<and> fst (serviceStatusReporter_tick [''api'', ''db''] [''db'', ''api'']
          (\<lambda>serviceName status. None) fixture_reporter)
       = fixture_reporter\<lparr>reportedServiceStatuses := serviceStatuses fixture_reporter\<rparr>
   \<and> fst (serviceStateReporter_tick [''api''] [''api'']
          (\<lambda>serviceName state. Some ''connection reset'')
          (SetServiceState ''api'' \<lparr>State = ''running'', ErrorMessage = []\<rparr> fixture_reporter))
       = SetServiceState ''api'' \<lparr>State = ''running'', ErrorMessage = []\<rparr> fixture_reporter
   \<and> fst (serviceStateReporter_tick [''api''] [''api'']
          (\<lambda>serviceName state. None)
          (SetServiceState ''api'' \<lparr>State = ''running'', ErrorMessage = []\<rparr> fixture_reporter))
       = (SetServiceState ''api'' \<lparr>State = ''running'', ErrorMessage = []\<rparr> fixture_reporter)
           \<lparr>reportedServiceStates := [''api'' \<mapsto> \<lparr>State = ''running'', ErrorMessage = []\<rparr>]\<rparr>"
  using
    commit_skipped_on_error [of "[''api'', ''db'']" fixture_reporter "[]" "[''api'', ''db'']"
      "\<lambda>serviceName status. if serviceName = ''db'' then Some ''connection reset'' else None"
      "[]" "\<lambda>serviceName state. None"]
    commit_skipped_on_error [of "[''api'', ''db'']" fixture_reporter "[]" "[''db'', ''api'']"
      "\<lambda>serviceName status. None" "[]" "\<lambda>serviceName state. None"]
    commit_skipped_on_error [of "[]"
      "SetServiceState ''api'' \<lparr>State = ''running'', ErrorMessage = []\<rparr> fixture_reporter"
      "[''api'']" "[]" "\<lambda>serviceName status. None" "[''api'']"
      "\<lambda>serviceName state. Some ''connection reset''"]
    commit_skipped_on_error [of "[]"
      "SetServiceState ''api'' \<lparr>State = ''running'', ErrorMessage = []\<rparr> fixture_reporter"
      "[''api'']" "[]" "\<lambda>serviceName status. None" "[''api'']"
      "\<lambda>serviceName state. None"]
  by (simp add: reporter_eval)

subsection \<open>The reporter: executions\<close>

lemma applicationStatusReporter_tick_statuses:
  "serviceStatuses (fst (applicationStatusReporter_tick order reported r)) = serviceStatuses r"
  by (simp add: applicationStatusReporter_tick_def Let_def split: option.splits)

lemma serviceStatusReporter_tick_statuses:
  "serviceStatuses (fst (serviceStatusReporter_tick order order' report r)) = serviceStatuses r"
  by (simp add: serviceStatusReporter_tick_def split: prod.splits)

lemma serviceStateReporter_tick_statuses:
  "serviceStatuses (fst (serviceStateReporter_tick order order' report r)) = serviceStatuses r"
  by (simp add: serviceStateReporter_tick_def split: prod.splits)

text \<open>
  Every entry of \<open>serviceStatuses\<close> was put there by a call of \<open>SetServiceStatus\<close>.
\<close>

lemma reporter_run_statuses_called:
  "reporter_run appID r t \<Longrightarrow> serviceStatuses r name = Some status \<Longrightarrow>
     CallSetServiceStatus name status \<in> set t"
proof (induction arbitrary: name status rule: reporter_run.induct)
  case run_New
  then show ?case by (simp add: NewReporter_def)
next
  case (run_SetDesiredApplication r t release applicationConfig)
  then show ?case by (simp add: SetDesiredApplication_def Let_def)
next
  case (run_SetServiceStatus r t serviceName status')
  then show ?case by (auto simp: SetServiceStatus_def split: if_splits)
next
  case (run_SetServiceState r t serviceName state)
  then show ?case by (simp add: SetServiceState_def)
next
  case (run_applicationStatusReporter r t order reported)
  then show ?case by (simp add: applicationStatusReporter_tick_statuses)
next
  case (run_serviceStatusReporter r t order order' report)
  then show ?case by (simp add: serviceStatusReporter_tick_statuses)
next
  case (run_serviceStateReporter r t order order' report)
  then show ?case by (simp add: serviceStateReporter_tick_statuses)
qed

lemma fixture_run:
  "reporter_run ''A''
     (SetServiceStatus ''web'' \<lparr>CurrentReleaseID = ''R1''\<rparr>
        (SetDesiredApplication ''R1'' [(''web'', fixture_service)] (NewReporter ''A'')))
     [CallSetDesiredApplication ''R1'' [''web''],
      CallSetServiceStatus ''web'' \<lparr>CurrentReleaseID = ''R1''\<rparr>]"
proof -
  have "reporter_run ''A''
      (SetDesiredApplication ''R1'' [(''web'', fixture_service)] (NewReporter ''A''))
      ([] @ [CallSetDesiredApplication ''R1'' (map fst [(''web'', fixture_service)])])"
    by (rule run_SetDesiredApplication [OF run_New])
  then have "reporter_run ''A''
     (SetServiceStatus ''web'' \<lparr>CurrentReleaseID = ''R1''\<rparr>
        (SetDesiredApplication ''R1'' [(''web'', fixture_service)] (NewReporter ''A'')))
     (([] @ [CallSetDesiredApplication ''R1'' (map fst [(''web'', fixture_service)])])
        @ [CallSetServiceStatus ''web'' \<lparr>CurrentReleaseID = ''R1''\<rparr>])"
    by (rule run_SetServiceStatus)
  then show ?thesis by simp
qed

text \<open>
  Against C2 as it is written, which says that the application status for a release is
  never published before a successful service-status publication for every desired
  service. The gate reads
  \<open>serviceStatuses\<close>, what the supervisors have set, and not \<open>reportedServiceStatuses\<close>:
  in this execution the application-status loop ticks before the service-status loop
  has published anything.
\<close>

theorem application_status_before_service_status_counterexample:
  "reporter_run ''A''
     (fst (applicationStatusReporter_tick [''web''] None
        (SetServiceStatus ''web'' \<lparr>CurrentReleaseID = ''R1''\<rparr>
           (SetDesiredApplication ''R1'' [(''web'', fixture_service)] (NewReporter ''A'')))))
     [CallSetDesiredApplication ''R1'' [''web''],
      CallSetServiceStatus ''web'' \<lparr>CurrentReleaseID = ''R1''\<rparr>,
      ReportApplicationStatus ''A'' ''R1'' None]
   \<and> reportedServiceStatuses
       (fst (applicationStatusReporter_tick [''web''] None
          (SetServiceStatus ''web'' \<lparr>CurrentReleaseID = ''R1''\<rparr>
             (SetDesiredApplication ''R1'' [(''web'', fixture_service)] (NewReporter ''A''))))) ''web'' = None"
proof -
  have tick: "snd (applicationStatusReporter_tick [''web''] None
        (SetServiceStatus ''web'' \<lparr>CurrentReleaseID = ''R1''\<rparr>
           (SetDesiredApplication ''R1'' [(''web'', fixture_service)] (NewReporter ''A''))))
      = [ReportApplicationStatus ''A'' ''R1'' None]"
    by (simp add: reporter_eval)
  have "reporter_run ''A''
     (fst (applicationStatusReporter_tick [''web''] None
        (SetServiceStatus ''web'' \<lparr>CurrentReleaseID = ''R1''\<rparr>
           (SetDesiredApplication ''R1'' [(''web'', fixture_service)] (NewReporter ''A'')))))
     ([CallSetDesiredApplication ''R1'' [''web''],
       CallSetServiceStatus ''web'' \<lparr>CurrentReleaseID = ''R1''\<rparr>]
      @ snd (applicationStatusReporter_tick [''web''] None
        (SetServiceStatus ''web'' \<lparr>CurrentReleaseID = ''R1''\<rparr>
           (SetDesiredApplication ''R1'' [(''web'', fixture_service)] (NewReporter ''A'')))))"
    by (rule run_applicationStatusReporter [OF fixture_run]) (simp_all add: reporter_eval)
  then show ?thesis
    unfolding tick by (simp add: reporter_eval)
qed

text \<open>
  C2, as amended. In every execution, an application-status publication carrying
  release \<open>R\<close> is never issued before, for every name in the desired service set,
  \<open>SetServiceStatus\<close> has been called for that service with a status carrying \<open>R\<close>, and
  that status is the one last seen for the service; no service-status publication need
  have been made.
\<close>

theorem application_status_after_status_calls:
  assumes run: "reporter_run appID r t"
    and order: "visits order (desiredApplicationServiceNames r)"
    and published: "ReportApplicationStatus app release err
        \<in> set (snd (applicationStatusReporter_tick order reported r))"
  shows "\<forall>name \<in> desiredApplicationServiceNames r.
           \<exists>status. CallSetServiceStatus name status \<in> set t
             \<and> CurrentReleaseID status = release
             \<and> serviceStatuses r name = Some status"
proof
  fix name
  assume "name \<in> desiredApplicationServiceNames r"
  with published obtain status where
    status: "serviceStatuses r name = Some status" "CurrentReleaseID status = release"
    unfolding applicationStatusReporter_tick_cases [OF order]
    by (auto split: if_splits)
  with reporter_run_statuses_called [OF run status(1)]
  show "\<exists>status. CallSetServiceStatus name status \<in> set t
             \<and> CurrentReleaseID status = release
             \<and> serviceStatuses r name = Some status"
    by blast
qed

theorem application_status_after_status_calls_witness:
  "\<exists>status. CallSetServiceStatus ''web'' status
        \<in> set [CallSetDesiredApplication ''R1'' [''web''],
                CallSetServiceStatus ''web'' \<lparr>CurrentReleaseID = ''R1''\<rparr>]
      \<and> CurrentReleaseID status = ''R1''
      \<and> serviceStatuses
           (SetServiceStatus ''web'' \<lparr>CurrentReleaseID = ''R1''\<rparr>
              (SetDesiredApplication ''R1'' [(''web'', fixture_service)] (NewReporter ''A''))) ''web''
         = Some status"
proof -
  have published: "ReportApplicationStatus ''A'' ''R1'' None
      \<in> set (snd (applicationStatusReporter_tick [''web''] None
        (SetServiceStatus ''web'' \<lparr>CurrentReleaseID = ''R1''\<rparr>
           (SetDesiredApplication ''R1'' [(''web'', fixture_service)] (NewReporter ''A'')))))"
    by (simp add: reporter_eval)
  have order: "visits [''web'']
      (desiredApplicationServiceNames
        (SetServiceStatus ''web'' \<lparr>CurrentReleaseID = ''R1''\<rparr>
           (SetDesiredApplication ''R1'' [(''web'', fixture_service)] (NewReporter ''A''))))"
    by (simp add: reporter_eval)
  have "''web'' \<in> desiredApplicationServiceNames
        (SetServiceStatus ''web'' \<lparr>CurrentReleaseID = ''R1''\<rparr>
           (SetDesiredApplication ''R1'' [(''web'', fixture_service)] (NewReporter ''A'')))"
    by (simp add: reporter_eval)
  with application_status_after_status_calls [OF fixture_run order published]
  show ?thesis by blast
qed

end
